theory Spec2Isabelle
  imports Main "HOL-Library.Sublist" "HOL-Library.Word"
begin

section \<open>JavaScript primitives used by the attendance front end\<close>

text \<open>
  Strings are modelled as \<^typ>\<open>string\<close> over ASCII text. \<open>toLowerCase\<close> maps the letters
  \<open>A\<close>..\<open>Z\<close> to \<open>a\<close>..\<open>z\<close> and leaves every other character alone;
  \<open>s.includes(t)\<close> holds when \<open>t\<close> is a contiguous part of \<open>s\<close>.
\<close>

definition lower_char :: "char \<Rightarrow> char" where
  "lower_char c =
     (let n = (of_char c :: nat) in if 65 \<le> n \<and> n \<le> 90 then char_of (n + 32) else c)"

definition toLowerCase :: "string \<Rightarrow> string" where
  "toLowerCase s = map lower_char s"

definition str_includes :: "string \<Rightarrow> string \<Rightarrow> bool" where
  "str_includes s t = sublist t s"

text \<open>
  A number is a double. The numbers modelled are the integers from \<open>-2^53\<close> to
  \<open>2^53 - 1\<close>: a double holds each of them exactly, and \<open>String(n)\<close> and
  \<open>n.toString()\<close> print each of them as its decimal digits, with a leading minus sign
  below zero. They are the 54-bit signed integers, read with \<^const>\<open>sint\<close>; no
  arithmetic is done on them. Fractions and larger numbers, which print differently, are
  outside the type.
\<close>

type_synonym js_int = "54 word"

definition digit_char :: "nat \<Rightarrow> char" where
  "digit_char d = char_of (48 + d)"

fun digits :: "nat \<Rightarrow> string" where
  "digits n = (if n < 10 then [digit_char n] else digits (n div 10) @ [digit_char (n mod 10)])"

declare digits.simps [simp del]

definition num_toString :: "js_int \<Rightarrow> string" where
  "num_toString n =
     (let i = sint n in if i < 0 then CHR ''-'' # digits (nat (- i)) else digits (nat i))"

text \<open>
  The relational operator \<open><=\<close> on two strings compares them code unit by code unit;
  a proper prefix is smaller.
\<close>

fun str_le :: "string \<Rightarrow> string \<Rightarrow> bool" where
  "str_le [] t = True"
| "str_le (a # s) [] = False"
| "str_le (a # s) (b # t) =
     (if (of_char a :: nat) < of_char b then True
      else if (of_char b :: nat) < of_char a then False
      else str_le s t)"

text \<open>
  \<open>xs.slice(start, end)\<close>: a negative index counts from the end, and both indices are
  clamped to the array.
\<close>

definition slice_index :: "nat \<Rightarrow> int \<Rightarrow> nat" where
  "slice_index n i = (if i < 0 then nat (max (int n + i) 0) else min (nat i) n)"

definition slice :: "'a list \<Rightarrow> int \<Rightarrow> int \<Rightarrow> 'a list" where
  "slice xs start stop =
     (let s = slice_index (length xs) start; e = slice_index (length xs) stop
      in take (e - s) (drop s xs))"

text \<open>
  A \<open>Set\<close> iterates in insertion order, so it is a list without repetitions:
  \<open>new Set(xs)\<close> keeps the first occurrence of every element.
\<close>

definition set_add :: "'a list \<Rightarrow> 'a \<Rightarrow> 'a list" where
  "set_add s x = (if x \<in> set s then s else s @ [x])"

definition new_Set :: "'a list \<Rightarrow> 'a list" where
  "new_Set xs = foldl set_add [] xs"

definition set_delete :: "'a list \<Rightarrow> 'a \<Rightarrow> 'a list" where
  "set_delete s x = filter (\<lambda>y. y \<noteq> x) s"


section \<open>Bulk attendance page\<close>

text \<open>
  An employee as \<open>GET /employees/all\<close> delivers it: a numeric \<open>id\<close>, a \<open>name\<close>, and
  optional \<open>role\<close>, \<open>profileImage\<close> and \<open>lastStatus\<close>.
\<close>

record employee =
  id_emp :: js_int
  name :: string
  role :: "string option"
  profileImage :: "string option"
  lastStatus :: "string option"

text \<open>The module-level \<open>employeeCache\<close> object; \<open>None\<close> stands for \<open>null\<close>.\<close>

record cache =
  data :: "employee list option"
  timestamp :: "int option"

definition CACHE_DURATION :: int where
  "CACHE_DURATION = 5 * 60 * 1000"

datatype toast_type = ToastSuccess | ToastWarning | ToastError | ToastInfo

text \<open>Every call of \<open>fetch\<close> is logged in the state, so that "no request" can be stated.\<close>

datatype request =
    GetEmployees
  | PostBulkMark "js_int list" string string

text \<open>
  The component state of \<open>BulkAttendancePage\<close>, together with the cache singleton, the
  toasts shown so far and the requests issued so far. \<open>selectedEmployees\<close> is a \<open>Set\<close>.
  \<open>isDateValid\<close> is the value the \<open>useMemo\<close> holds: it is computed when the page is
  mounted and again whenever \<open>selectedDate\<close> changes, and at no other time.
\<close>

record bulk_state =
  employees :: "employee list"
  search :: string
  selectedStatus :: string
  selectedEmployees :: "js_int list"
  selectedDate :: string
  isDateValid :: bool
  isLoading :: bool
  isMarking :: bool
  showDateWarning :: bool
  employeeCache :: cache
  toasts :: "(toast_type \<times> string option) list"
  requests :: "request list"

definition showToast :: "toast_type \<Rightarrow> string option \<Rightarrow> bulk_state \<Rightarrow> bulk_state" where
  "showToast ty message st = st\<lparr>toasts := toasts st @ [(ty, message)]\<rparr>"

text \<open>
  \<open>getCurrentDate\<close> reads the clock (full year, zero-based month, day of the month) and
  pads month and day to two digits.
\<close>

definition padStart2 :: "string \<Rightarrow> string" where
  "padStart2 s = replicate (2 - length s) CHR ''0'' @ s"

definition getCurrentDate :: "nat \<times> nat \<times> nat \<Rightarrow> string" where
  "getCurrentDate now =
     (case now of (year, month, day) \<Rightarrow>
        digits year @ ''-'' @ padStart2 (digits (month + 1)) @ ''-'' @ padStart2 (digits day))"

text \<open>
  The body of the \<open>isDateValid\<close> memo: the selected date is not after today, as strings,
  \<open>today\<close> being \<open>getCurrentDate()\<close> at the moment the body runs.
\<close>

definition isDateValid_body :: "string \<Rightarrow> string \<Rightarrow> bool" where
  "isDateValid_body selected today = str_le selected today"

definition showDateWarningNotification :: "bulk_state \<Rightarrow> bulk_state" where
  "showDateWarningNotification st =
     (showToast ToastError
        (Some ''Cannot mark attendance for future dates. Please select today or a past date.'') st)
     \<lparr>showDateWarning := True\<rparr>"

definition filteredEmployees :: "employee list \<Rightarrow> string \<Rightarrow> employee list" where
  "filteredEmployees emps srch =
     (if srch = [] then emps
      else let searchLower = toLowerCase srch
           in filter (\<lambda>emp. str_includes (toLowerCase (name emp)) searchLower
                          \<or> str_includes (num_toString (id_emp emp)) srch) emps)"

text \<open>
  \<open>fetchEmployees\<close>: a fresh cache entry is served without a request; otherwise the roster is
  fetched, and a failure falls back to whatever the cache holds. The second argument is what
  the network answers if it is asked.
\<close>

datatype 'a response = Ok 'a | NotOk nat | Failed

definition fetchEmployees :: "int \<Rightarrow> employee list response \<Rightarrow> bulk_state \<Rightarrow> bulk_state" where
  "fetchEmployees now resp st =
     (let c = employeeCache st;
          ts = (case timestamp c of None \<Rightarrow> 0 | Some t \<Rightarrow> t)
      in if data c \<noteq> None \<and> now - ts < CACHE_DURATION
         then st\<lparr>employees := the (data c), isLoading := False\<rparr>
         else
           (let st1 = st\<lparr>requests := requests st @ [GetEmployees]\<rparr>
            in case resp of
                 Ok d \<Rightarrow>
                   st1\<lparr>employeeCache := \<lparr>data = Some d, timestamp = Some now\<rparr>,
                       employees := d, isLoading := False\<rparr>
               | _ \<Rightarrow>
                   (let st2 = showToast ToastError
                                (Some ''Failed to load employees. Please try again later.'') st1
                    in (case data c of
                          Some d \<Rightarrow> st2\<lparr>employees := d, isLoading := False\<rparr>
                        | None \<Rightarrow> st2\<lparr>isLoading := False\<rparr>))))"

definition handleEmployeeSelect :: "js_int \<Rightarrow> bulk_state \<Rightarrow> bulk_state" where
  "handleEmployeeSelect employeeId st =
     st\<lparr>selectedEmployees :=
          (if employeeId \<in> set (selectedEmployees st)
           then set_delete (selectedEmployees st) employeeId
           else set_add (selectedEmployees st) employeeId)\<rparr>"

definition handleSelectAll :: "bool \<Rightarrow> bulk_state \<Rightarrow> bulk_state" where
  "handleSelectAll checked st =
     (if checked
      then st\<lparr>selectedEmployees :=
                new_Set (map id_emp (filteredEmployees (employees st) (search st)))\<rparr>
      else st\<lparr>selectedEmployees := []\<rparr>)"

text \<open>
  \<open>handleDateChange\<close> stores the new date and warns when it is after today. The render
  that follows runs the memo's body only if the date differs from the one before.
\<close>

definition handleDateChange :: "string \<Rightarrow> string \<Rightarrow> bulk_state \<Rightarrow> bulk_state" where
  "handleDateChange today newDate st =
     (let st1 = st\<lparr>selectedDate := newDate,
                   isDateValid := (if newDate = selectedDate st then isDateValid st
                                   else isDateValid_body newDate today)\<rparr>
      in if \<not> str_le newDate today then showDateWarningNotification st1 else st1)"


text \<open>
  \<open>markBulkAttendance\<close> is asynchronous. Up to the \<open>await fetch\<close> it validates, sets
  \<open>isMarking\<close>, takes the snapshot \<open>prevEmployees\<close>, applies the optimistic update and
  issues the request; what it keeps for later is a \<open>pending_mark\<close>.
\<close>

record pending_mark =
  employeeIds :: "js_int list"
  prevEmployees :: "employee list"
  markedStatus :: string

definition markBulkAttendance_begin ::
  "bulk_state \<Rightarrow> bulk_state \<times> pending_mark option" where
  "markBulkAttendance_begin st =
     (if selectedStatus st = [] then
        (showToast ToastError (Some ''Please select attendance status'') st, None)
      else if length (selectedEmployees st) = 0 then
        (showToast ToastError (Some ''Please select at least one employee'') st, None)
      else if \<not> isDateValid st then
        (showDateWarningNotification st, None)
      else
        (st\<lparr>isMarking := True,
            employees :=
              map (\<lambda>emp. if id_emp emp \<in> set (selectedEmployees st)
                         then emp\<lparr>lastStatus := Some (selectedStatus st)\<rparr> else emp)
                  (employees st),
            requests := requests st
              @ [PostBulkMark (selectedEmployees st) (selectedStatus st) (selectedDate st)]\<rparr>,
         Some \<lparr>employeeIds = selectedEmployees st, prevEmployees = employees st,
               markedStatus = selectedStatus st\<rparr>))"

text \<open>
  What can come back: a 2xx response; a non-2xx response whose body carries a message or
  none; a non-2xx response whose body cannot be read (\<open>response.json()\<close> throws); or
  \<open>fetch\<close> itself rejecting (network failure, timeout). A thrown error carries its message.
\<close>

datatype mark_response =
    MarkOk
  | MarkNotOk "string option"
  | MarkNotOkBodyThrows string
  | MarkFetchThrows string

definition successMessages :: "string \<Rightarrow> nat \<Rightarrow> string option" where
  "successMessages status n =
     (if status = ''present'' then
        Some (''Successfully marked '' @ digits n @ '' employees as Present'')
      else if status = ''absent'' then Some (''Marked '' @ digits n @ '' employees as Absent'')
      else if status = ''halfday'' then Some (''Marked '' @ digits n @ '' employees as Half Day'')
      else None)"

text \<open>\<open>a || b\<close> on messages: an absent or empty message is falsy.\<close>

definition message_or :: "string option \<Rightarrow> string \<Rightarrow> string" where
  "message_or m d = (case m of None \<Rightarrow> d | Some s \<Rightarrow> if s = [] then d else s)"

definition catch_toast :: "string \<Rightarrow> bulk_state \<Rightarrow> bulk_state" where
  "catch_toast message st =
     showToast ToastError
       (Some (message_or (Some message) ''Failed to mark attendance. Please try again.'')) st"

definition markBulkAttendance_resume ::
  "mark_response \<Rightarrow> pending_mark \<Rightarrow> bulk_state \<Rightarrow> bulk_state" where
  "markBulkAttendance_resume resp p st =
     (case resp of
        MarkOk \<Rightarrow>
          (showToast ToastSuccess
             (successMessages (markedStatus p) (length (employeeIds p))) st)
          \<lparr>selectedEmployees := [], isMarking := False\<rparr>
      | MarkNotOk m \<Rightarrow>
          (catch_toast (message_or m ''Failed to mark attendance'')
             (st\<lparr>employees := prevEmployees p\<rparr>))
          \<lparr>isMarking := False\<rparr>
      | MarkNotOkBodyThrows e \<Rightarrow>
          (catch_toast e (st\<lparr>employees := prevEmployees p\<rparr>))\<lparr>isMarking := False\<rparr>
      | MarkFetchThrows e \<Rightarrow>
          (catch_toast e st)\<lparr>isMarking := False\<rparr>)"

text \<open>
  When the response arrives after the page was unmounted, the state setters of the old
  component do nothing; the toast, which is global, is still shown.
\<close>

definition markBulkAttendance_resume_unmounted ::
  "mark_response \<Rightarrow> pending_mark \<Rightarrow> bulk_state \<Rightarrow> bulk_state" where
  "markBulkAttendance_resume_unmounted resp p st =
     (case resp of
        MarkOk \<Rightarrow>
          showToast ToastSuccess
            (successMessages (markedStatus p) (length (employeeIds p))) st
      | MarkNotOk m \<Rightarrow> catch_toast (message_or m ''Failed to mark attendance'') st
      | MarkNotOkBodyThrows e \<Rightarrow> catch_toast e st
      | MarkFetchThrows e \<Rightarrow> catch_toast e st)"

text \<open>The whole call, run to its end with nothing in between.\<close>

definition markBulkAttendance :: "mark_response \<Rightarrow> bulk_state \<Rightarrow> bulk_state" where
  "markBulkAttendance resp st =
     (case markBulkAttendance_begin st of
        (st1, None) \<Rightarrow> st1
      | (st1, Some p) \<Rightarrow> markBulkAttendance_resume resp p st1)"

text \<open>
  The "Mark Attendance" button carries \<open>onClick={markBulkAttendance}\<close> and the
  \<open>disabled\<close> property below; a disabled button does not call its handler.
\<close>

definition mark_button_disabled :: "bulk_state \<Rightarrow> bool" where
  "mark_button_disabled st =
     (selectedStatus st = [] \<or> length (selectedEmployees st) = 0 \<or> isMarking st
      \<or> \<not> isDateValid st)"

text \<open>The state of a freshly mounted page, as the \<open>useState\<close> calls initialise it.\<close>

definition initial_state :: "string \<Rightarrow> bulk_state" where
  "initial_state today =
     \<lparr>employees = [], search = [], selectedStatus = [], selectedEmployees = [],
      selectedDate = today, isDateValid = isDateValid_body today today, isLoading = True,
      isMarking = False, showDateWarning = False,
      employeeCache = \<lparr>data = None, timestamp = None\<rparr>, toasts = [], requests = []\<rparr>"

text \<open>
  Leaving the page and coming back mounts a new component: its state starts afresh. The
  cache is a module-level object and survives, and so do the logs of toasts and requests.
\<close>

definition remount :: "string \<Rightarrow> bulk_state \<Rightarrow> bulk_state" where
  "remount today st =
     (initial_state today)
       \<lparr>employeeCache := employeeCache st, toasts := toasts st, requests := requests st\<rparr>"

text \<open>
  The page as an event system: the component state, the number of the current mount, and
  the submissions whose response is still awaited, each with the mount that made it. The
  search box, the date, the status, the check boxes and the button are rendered only while
  the page is not loading. Responses arrive in any order; a request is not aborted when the
  page is left. \<open>HideDateWarning\<close> is the timer that takes the date warning away after
  three seconds. The events that read the clock carry today's date.
\<close>

record system =
  page :: bulk_state
  mount :: nat
  awaited :: "(nat \<times> pending_mark) list"

datatype event =
    ClickMark
  | Respond nat mark_response
  | Load int "employee list response"
  | Toggle js_int
  | SelectAll bool
  | ChangeStatus string
  | ChangeDate string string
  | ChangeSearch string
  | HideDateWarning
  | Remount string

definition remove_nth :: "nat \<Rightarrow> 'a list \<Rightarrow> 'a list" where
  "remove_nth n xs = take n xs @ drop (Suc n) xs"

text \<open>An event of a control: it has no effect while the controls are not rendered.\<close>

definition ui :: "system \<Rightarrow> (bulk_state \<Rightarrow> bulk_state) \<Rightarrow> system" where
  "ui s f = (if isLoading (page s) then s else s\<lparr>page := f (page s)\<rparr>)"

fun step :: "system \<Rightarrow> event \<Rightarrow> system" where
  "step s ClickMark =
     (if isLoading (page s) \<or> mark_button_disabled (page s) then s
      else (case markBulkAttendance_begin (page s) of
              (st1, None) \<Rightarrow> s\<lparr>page := st1\<rparr>
            | (st1, Some p) \<Rightarrow> s\<lparr>page := st1, awaited := awaited s @ [(mount s, p)]\<rparr>))"
| "step s (Respond n r) =
     (if n < length (awaited s)
      then s\<lparr>page :=
               (if fst (awaited s ! n) = mount s
                then markBulkAttendance_resume r (snd (awaited s ! n)) (page s)
                else markBulkAttendance_resume_unmounted r (snd (awaited s ! n)) (page s)),
             awaited := remove_nth n (awaited s)\<rparr>
      else s)"
| "step s (Load now r) = s\<lparr>page := fetchEmployees now r (page s)\<rparr>"
| "step s (Toggle i) = ui s (handleEmployeeSelect i)"
| "step s (SelectAll b) = ui s (handleSelectAll b)"
| "step s (ChangeStatus x) = ui s (\<lambda>st. st\<lparr>selectedStatus := x\<rparr>)"
| "step s (ChangeDate today d) = ui s (handleDateChange today d)"
| "step s (ChangeSearch x) = ui s (\<lambda>st. st\<lparr>search := x\<rparr>)"
| "step s HideDateWarning = s\<lparr>page := (page s)\<lparr>showDateWarning := False\<rparr>\<rparr>"
| "step s (Remount today) = s\<lparr>page := remount today (page s), mount := Suc (mount s)\<rparr>"

definition run :: "system \<Rightarrow> event list \<Rightarrow> system" where
  "run s evs = foldl step s evs"

text \<open>The application when the page is opened for the first time.\<close>

definition boot :: "string \<Rightarrow> system" where
  "boot today = \<lparr>page = initial_state today, mount = 0, awaited = []\<rparr>"

text \<open>The awaited submissions that the current mount made.\<close>

definition current_awaited :: "system \<Rightarrow> (nat \<times> pending_mark) list" where
  "current_awaited s = filter (\<lambda>a. fst a = mount s) (awaited s)"

text \<open>
  At most one submission of the current mount awaits its response, and while one does
  \<open>isMarking\<close> is set.
\<close>

definition one_in_flight :: "system \<Rightarrow> bool" where
  "one_in_flight s =
     (length (current_awaited s) \<le> 1 \<and> (current_awaited s = [] \<or> isMarking (page s)))"

text \<open>No awaited submission was made by a mount that is yet to come.\<close>

definition awaited_from_past :: "system \<Rightarrow> bool" where
  "awaited_from_past s = list_all (\<lambda>a. fst a \<le> mount s) (awaited s)"

section \<open>Attendance page: search and pagination\<close>

definition filteredEmployees_AttendancePage :: "employee list \<Rightarrow> string \<Rightarrow> employee list" where
  "filteredEmployees_AttendancePage emps srch =
     filter (\<lambda>emp. str_includes (toLowerCase (name emp)) (toLowerCase srch)
                 \<or> str_includes (num_toString (id_emp emp)) (toLowerCase srch)) emps"

definition employeesPerPage :: nat where
  "employeesPerPage = 10"

text \<open>The slice of \<open>paginatedEmployees\<close>, for any page size.\<close>

definition paginate :: "nat \<Rightarrow> 'a list \<Rightarrow> int \<Rightarrow> 'a list" where
  "paginate perPage xs currentPage =
     (let indexOfLast = currentPage * int perPage;
          indexOfFirst = indexOfLast - int perPage
      in slice xs indexOfFirst indexOfLast)"

definition paginatedEmployees :: "employee list \<Rightarrow> int \<Rightarrow> employee list" where
  "paginatedEmployees filtered currentPage = paginate employeesPerPage filtered currentPage"

text \<open>\<open>Math.ceil(n / perPage)\<close>, the number of pages shown beside the buttons.\<close>

definition pageCount :: "nat \<Rightarrow> nat \<Rightarrow> nat" where
  "pageCount n perPage = (if n mod perPage = 0 then n div perPage else n div perPage + 1)"

record attendance_page =
  employees_ap :: "employee list"
  search_ap :: string
  currentPage :: int

definition handleSearchChange :: "string \<Rightarrow> attendance_page \<Rightarrow> attendance_page" where
  "handleSearchChange v st = st\<lparr>search_ap := v, currentPage := 1\<rparr>"

definition handlePageChange :: "int \<Rightarrow> attendance_page \<Rightarrow> attendance_page" where
  "handlePageChange newPage st = st\<lparr>currentPage := newPage\<rparr>"

section \<open>Attendance dashboard: ingest, search, summary\<close>

text \<open>
  What \<open>response.json()\<close> can put into a field, and \<open>undefined\<close> for a field that is not
  there. Numbers are the exactly held integers of \<^typ>\<open>js_int\<close>; an object keeps its
  properties in the order of the text, the last binding of a key being the one that counts.
\<close>

datatype jsval =
    JUndefined
  | JNull
  | JBool bool
  | JNum js_int
  | JStr string
  | JObj "(string \<times> jsval) list"

datatype js_error = TypeError

fun truthy :: "jsval \<Rightarrow> bool" where
  "truthy JUndefined = False"
| "truthy JNull = False"
| "truthy (JBool b) = b"
| "truthy (JNum n) = (n \<noteq> 0)"
| "truthy (JStr s) = (s \<noteq> [])"
| "truthy (JObj kvs) = True"

definition js_or :: "jsval \<Rightarrow> jsval \<Rightarrow> jsval" where
  "js_or a b = (if truthy a then a else b)"

fun nullish :: "jsval \<Rightarrow> bool" where
  "nullish JUndefined = True"
| "nullish JNull = True"
| "nullish v = False"

text \<open>\<open>item.k\<close>: reading a property of \<open>null\<close> or \<open>undefined\<close> throws.\<close>

fun get_prop :: "jsval \<Rightarrow> string \<Rightarrow> js_error + jsval" where
  "get_prop JUndefined k = Inl TypeError"
| "get_prop JNull k = Inl TypeError"
| "get_prop (JObj kvs) k = Inr (case map_of (rev kvs) k of None \<Rightarrow> JUndefined | Some v \<Rightarrow> v)"
| "get_prop v k = Inr JUndefined"

text \<open>\<open>v.toLowerCase()\<close>: only a string has the method.\<close>

fun js_toLowerCase :: "jsval \<Rightarrow> js_error + string" where
  "js_toLowerCase (JStr s) = Inr (toLowerCase s)"
| "js_toLowerCase v = Inl TypeError"

fun js_String :: "jsval \<Rightarrow> string" where
  "js_String JUndefined = ''undefined''"
| "js_String JNull = ''null''"
| "js_String (JBool b) = (if b then ''true'' else ''false'')"
| "js_String (JNum n) = num_toString n"
| "js_String (JStr s) = s"
| "js_String (JObj kvs) = ''[object Object]''"

record attendance_record =
  employeeId :: jsval
  employeeName :: jsval
  status :: string
  date :: jsval
  department :: jsval
  position :: jsval
  lastCheckIn :: jsval

text \<open>
  The body of \<open>data.map(item => ...)\<close> in \<open>fetchAttendanceData\<close>. \<open>field item k\<close> is
  \<open>item.k\<close> for an \<open>item\<close> that is neither \<open>null\<close> nor \<open>undefined\<close>;
  \<open>raw_status\<close> is \<open>item.status || item.attendanceStatus || 'absent'\<close>; \<open>nowIso\<close> is
  \<open>new Date().toISOString()\<close>.
\<close>

definition field :: "jsval \<Rightarrow> string \<Rightarrow> jsval" where
  "field item k = (case get_prop item k of Inr v \<Rightarrow> v | Inl e \<Rightarrow> JUndefined)"

definition raw_status :: "jsval \<Rightarrow> jsval" where
  "raw_status item =
     js_or (field item ''status'') (js_or (field item ''attendanceStatus'') (JStr ''absent''))"

definition processItem :: "string \<Rightarrow> jsval \<Rightarrow> js_error + attendance_record" where
  "processItem nowIso item =
     (if nullish item then Inl TypeError
      else
        (case js_toLowerCase (raw_status item) of
           Inl e \<Rightarrow> Inl e
         | Inr low \<Rightarrow>
             Inr \<lparr>employeeId = js_or (field item ''employeeId'') (JNum 0),
                  employeeName = js_or (field item ''employeeName'') (JStr ''Unknown''),
                  status = (if low = ''halfday'' then ''half-day'' else low),
                  date = js_or (field item ''currentDate'')
                           (js_or (field item ''date'') (JStr nowIso)),
                  department = js_or (field item ''department'')
                                 (js_or (field item ''role'') (JStr ''N/A'')),
                  position = js_or (field item ''position'')
                               (js_or (field item ''role'') (JStr ''N/A'')),
                  lastCheckIn = js_or (field item ''lastCheckIn'')
                                  (js_or (field item ''checkInTime'') JNull)\<rparr>))"

fun processedData :: "string \<Rightarrow> jsval list \<Rightarrow> js_error + attendance_record list" where
  "processedData nowIso [] = Inr []"
| "processedData nowIso (item # items) =
     (case processItem nowIso item of
        Inl e \<Rightarrow> Inl e
      | Inr r \<Rightarrow> (case processedData nowIso items of
                    Inl e \<Rightarrow> Inl e
                  | Inr rs \<Rightarrow> Inr (r # rs)))"

text \<open>\<open>v?.toLowerCase().includes(term)\<close>: \<open>undefined\<close>, which is falsy, when \<open>v\<close> is nullish.\<close>

definition opt_lower_includes :: "jsval \<Rightarrow> string \<Rightarrow> js_error + bool" where
  "opt_lower_includes v term =
     (if nullish v then Inr False
      else case js_toLowerCase v of Inl e \<Rightarrow> Inl e | Inr s \<Rightarrow> Inr (str_includes s term))"

definition search_matches :: "string \<Rightarrow> attendance_record \<Rightarrow> js_error + bool" where
  "search_matches term item =
     (case js_toLowerCase (employeeName item) of
        Inl e \<Rightarrow> Inl e
      | Inr n \<Rightarrow>
          if str_includes n term then Inr True
          else if str_includes (js_String (employeeId item)) term then Inr True
          else (case opt_lower_includes (department item) term of
                  Inl e \<Rightarrow> Inl e
                | Inr True \<Rightarrow> Inr True
                | Inr False \<Rightarrow> opt_lower_includes (position item) term))"

text \<open>\<open>xs.filter(p)\<close> with a callback that may throw: the first throw ends it.\<close>

fun filter_throwing :: "('a \<Rightarrow> js_error + bool) \<Rightarrow> 'a list \<Rightarrow> js_error + 'a list" where
  "filter_throwing p [] = Inr []"
| "filter_throwing p (x # xs) =
     (case p x of
        Inl e \<Rightarrow> Inl e
      | Inr b \<Rightarrow> (case filter_throwing p xs of
                    Inl e \<Rightarrow> Inl e
                  | Inr ys \<Rightarrow> Inr (if b then x # ys else ys)))"

definition filteredData ::
  "attendance_record list \<Rightarrow> string \<Rightarrow> string \<Rightarrow> js_error + attendance_record list" where
  "filteredData attendanceData searchTerm statusFilter =
     (case (if searchTerm \<noteq> []
            then filter_throwing (search_matches (toLowerCase searchTerm)) attendanceData
            else Inr attendanceData) of
        Inl e \<Rightarrow> Inl e
      | Inr result \<Rightarrow>
          Inr (if statusFilter \<noteq> ''all''
               then filter (\<lambda>item. status item = statusFilter) result
               else result))"

record summary =
  present :: nat
  absent :: nat
  halfDay :: nat
  total :: nat

definition calculateSummary :: "attendance_record list \<Rightarrow> summary" where
  "calculateSummary dat =
     \<lparr>present = length (filter (\<lambda>item. status item = ''present'') dat),
      absent = length (filter (\<lambda>item. status item = ''absent'') dat),
      halfDay = length (filter (\<lambda>item. status item = ''half-day'') dat),
      total = length dat\<rparr>"

text \<open>The three statuses the summary counts.\<close>

definition canonical :: "attendance_record \<Rightarrow> bool" where
  "canonical r = (status r = ''present'' \<or> status r = ''absent'' \<or> status r = ''half-day'')"

section \<open>Sample data\<close>

definition sample_record :: "js_int \<Rightarrow> string \<Rightarrow> attendance_record" where
  "sample_record i s =
     \<lparr>employeeId = JNum i, employeeName = JStr ''Asha'', status = s,
      date = JStr ''2024-01-01'', department = JStr ''Kitchen'', position = JStr ''Baker'',
      lastCheckIn = JNull\<rparr>"

definition asha :: employee where
  "asha = \<lparr>id_emp = 1, name = ''Asha'', role = Some ''Baker'', profileImage = None,
           lastStatus = None\<rparr>"

definition ravi :: employee where
  "ravi = \<lparr>id_emp = 2, name = ''Ravi'', role = None, profileImage = None,
           lastStatus = Some ''absent''\<rparr>"

text \<open>
  A page on 10 May 2024 with both employees loaded and selected and the status
  \<open>present\<close> chosen for that day.
\<close>

definition ready_state :: bulk_state where
  "ready_state =
     \<lparr>employees = [asha, ravi], search = [], selectedStatus = ''present'',
      selectedEmployees = [1, 2], selectedDate = ''2024-05-10'', isDateValid = True,
      isLoading = False,
      isMarking = False, showDateWarning = False,
      employeeCache = \<lparr>data = Some [asha, ravi], timestamp = Some 1000\<rparr>,
      toasts = [], requests = [GetEmployees]\<rparr>"


definition searching_state :: bulk_state where
  "searching_state = ready_state\<lparr>search := ''rav'', selectedEmployees := [1]\<rparr>"

text \<open>A fresh page whose first load, at time 1000, succeeded.\<close>

definition loaded_state :: bulk_state where
  "loaded_state = fetchEmployees 1000 (Ok [asha, ravi]) (initial_state ''2024-05-10'')"

section \<open>Vocabulary of the search and ingest properties\<close>

text \<open>\<open>t\<close> occurs in \<open>s\<close> when letter case is ignored.\<close>

definition ci_includes :: "string \<Rightarrow> string \<Rightarrow> bool" where
  "ci_includes s t = str_includes (toLowerCase s) (toLowerCase t)"

text \<open>The search of the two employee lists, as the specification words it: name, id or role.\<close>

definition claimed_employee_match :: "string \<Rightarrow> employee \<Rightarrow> bool" where
  "claimed_employee_match t e =
     (ci_includes (name e) t \<or> ci_includes (num_toString (id_emp e)) t
      \<or> (case role e of None \<Rightarrow> False | Some r \<Rightarrow> ci_includes r t))"

fun is_str :: "jsval \<Rightarrow> bool" where
  "is_str (JStr s) = True"
| "is_str v = False"

fun is_num :: "jsval \<Rightarrow> bool" where
  "is_num (JNum n) = True"
| "is_num v = False"

text \<open>
  Text within ASCII, where \<open>toLowerCase\<close> is the mapping of \<open>A\<close>..\<open>Z\<close> given above.
\<close>

definition ascii :: "string \<Rightarrow> bool" where
  "ascii s = list_all (\<lambda>c. (of_char c :: nat) < 128) s"

fun ascii_field :: "jsval \<Rightarrow> bool" where
  "ascii_field (JStr s) = ascii s"
| "ascii_field v = True"

text \<open>
  A record the dashboard search can run on: the name is a string, the id a number, and
  department and position are strings where they are present; the strings are ASCII.
\<close>

definition searchable :: "attendance_record \<Rightarrow> bool" where
  "searchable r =
     (is_str (employeeName r) \<and> is_num (employeeId r)
      \<and> (is_str (department r) \<or> nullish (department r))
      \<and> (is_str (position r) \<or> nullish (position r))
      \<and> ascii_field (employeeName r) \<and> ascii_field (department r)
      \<and> ascii_field (position r))"

text \<open>\<open>t\<close> occurs, letter case ignored, in the text of a field that is a string or a number.\<close>

fun ci_field :: "jsval \<Rightarrow> string \<Rightarrow> bool" where
  "ci_field (JStr s) t = ci_includes s t"
| "ci_field (JNum n) t = ci_includes (num_toString n) t"
| "ci_field v t = False"

definition record_match :: "string \<Rightarrow> attendance_record \<Rightarrow> bool" where
  "record_match t r =
     (ci_field (employeeName r) t \<or> ci_field (employeeId r) t
      \<or> ci_field (department r) t \<or> ci_field (position r) t)"

text \<open>An entry the ingest does not throw on: an object whose status, if any, is a string.\<close>

definition ingestible :: "jsval \<Rightarrow> bool" where
  "ingestible item = (\<not> nullish item \<and> is_str (raw_status item))"

text \<open>The search the two employee lists run: name or id.\<close>

definition employee_match :: "string \<Rightarrow> employee \<Rightarrow> bool" where
  "employee_match t e = (ci_includes (name e) t \<or> ci_includes (num_toString (id_emp e)) t)"

section \<open>Summary aggregator\<close>

lemma length_filter_count_list:
  "length (filter (\<lambda>x. f x = v) xs) = count_list (map f xs) v"
  by (induction xs) auto

lemma three_way_partition:
  assumes "a \<noteq> b" "a \<noteq> c" "b \<noteq> c"
  shows "length (filter (\<lambda>r. f r = a) d) + length (filter (\<lambda>r. f r = b) d)
           + length (filter (\<lambda>r. f r = c) d)
         = length (filter (\<lambda>r. f r = a \<or> f r = b \<or> f r = c) d)"
  using assms by (induction d) auto

lemma summary_sum:
  "present (calculateSummary d) + absent (calculateSummary d) + halfDay (calculateSummary d)
     = length (filter canonical d)"
proof -
  have "length (filter (\<lambda>r. status r = ''present'') d)
          + length (filter (\<lambda>r. status r = ''absent'') d)
          + length (filter (\<lambda>r. status r = ''half-day'') d)
        = length (filter (\<lambda>r. status r = ''present'' \<or> status r = ''absent''
                              \<or> status r = ''half-day'') d)"
    by (rule three_way_partition) simp_all
  then show ?thesis
    unfolding calculateSummary_def canonical_def by simp
qed

text \<open>
  Claim C8. \<open>calculateSummary\<close> returns, for \<open>present\<close>, \<open>absent\<close> and \<open>halfDay\<close>, the
  number of records whose status is \<open>present\<close>, \<open>absent\<close> and \<open>half-day\<close>, and for
  \<open>total\<close> the length of the collection. When every record has one of the three statuses
  the three counts add up to \<open>total\<close>; as soon as one record has another status they add up
  to less.
\<close>

theorem calculateSummary_counts:
  fixes d :: "attendance_record list"
  defines "s \<equiv> calculateSummary d"
  shows "present s = count_list (map status d) ''present''
       \<and> absent s = count_list (map status d) ''absent''
       \<and> halfDay s = count_list (map status d) ''half-day''
       \<and> total s = length d
       \<and> ((\<forall>r \<in> set d. canonical r) \<longrightarrow> present s + absent s + halfDay s = total s)
       \<and> ((\<exists>r \<in> set d. \<not> canonical r) \<longrightarrow> present s + absent s + halfDay s < total s)"
proof (intro conjI impI)
  show "present s = count_list (map status d) ''present''"
    unfolding s_def calculateSummary_def by (simp only: summary.simps length_filter_count_list)
  show "absent s = count_list (map status d) ''absent''"
    unfolding s_def calculateSummary_def by (simp only: summary.simps length_filter_count_list)
  show "halfDay s = count_list (map status d) ''half-day''"
    unfolding s_def calculateSummary_def by (simp only: summary.simps length_filter_count_list)
  show tot: "total s = length d"
    unfolding s_def calculateSummary_def by (simp only: summary.simps)
  show "present s + absent s + halfDay s = total s" if "\<forall>r \<in> set d. canonical r"
  proof -
    have "filter canonical d = d" using that by simp
    then show ?thesis using summary_sum[of d] tot by (simp only: s_def)
  qed
  show "present s + absent s + halfDay s < total s" if "\<exists>r \<in> set d. \<not> canonical r"
  proof -
    have "length (filter canonical d) < length d" using that by (metis length_filter_less)
    then show ?thesis using summary_sum[of d] tot by (simp only: s_def)
  qed
qed

theorem calculateSummary_counts_witness:
  "canonical (sample_record 1 ''present'') \<and> canonical (sample_record 2 ''absent'')
   \<and> canonical (sample_record 3 ''half-day'') \<and> canonical (sample_record 4 ''present'')
   \<and> present (calculateSummary [sample_record 1 ''present'', sample_record 2 ''absent'',
                       sample_record 3 ''half-day'', sample_record 4 ''present''])
       + absent (calculateSummary [sample_record 1 ''present'', sample_record 2 ''absent'',
                       sample_record 3 ''half-day'', sample_record 4 ''present''])
       + halfDay (calculateSummary [sample_record 1 ''present'', sample_record 2 ''absent'',
                       sample_record 3 ''half-day'', sample_record 4 ''present''])
       = total (calculateSummary [sample_record 1 ''present'', sample_record 2 ''absent'',
                       sample_record 3 ''half-day'', sample_record 4 ''present''])
   \<and> total (calculateSummary [sample_record 1 ''present'', sample_record 2 ''absent'',
                       sample_record 3 ''half-day'', sample_record 4 ''present'']) = 4
   \<and> (\<exists>r \<in> set [sample_record 1 ''present'', sample_record 2 ''late'']. \<not> canonical r)
   \<and> present (calculateSummary [sample_record 1 ''present'', sample_record 2 ''late''])
       + absent (calculateSummary [sample_record 1 ''present'', sample_record 2 ''late''])
       + halfDay (calculateSummary [sample_record 1 ''present'', sample_record 2 ''late''])
       < total (calculateSummary [sample_record 1 ''present'', sample_record 2 ''late''])"
proof -
  have a: "\<forall>r \<in> set [sample_record 1 ''present'', sample_record 2 ''absent'',
               sample_record 3 ''half-day'', sample_record 4 ''present'']. canonical r"
    by (simp add: sample_record_def canonical_def)
  have b: "\<exists>r \<in> set [sample_record 1 ''present'', sample_record 2 ''late'']. \<not> canonical r"
    by (simp add: sample_record_def canonical_def)
  have c: "length [sample_record 1 ''present'', sample_record 2 ''absent'',
                       sample_record 3 ''half-day'', sample_record 4 ''present''] = 4"
    by simp
  note t1 = calculateSummary_counts [of "[sample_record 1 ''present'', sample_record 2 ''absent'',
                       sample_record 3 ''half-day'', sample_record 4 ''present'']"]
  note t2 = calculateSummary_counts [of "[sample_record 1 ''present'', sample_record 2 ''late'']"]
  from t1 a have d: "present (calculateSummary [sample_record 1 ''present'', sample_record 2 ''absent'',
                       sample_record 3 ''half-day'', sample_record 4 ''present''])
       + absent (calculateSummary [sample_record 1 ''present'', sample_record 2 ''absent'',
                       sample_record 3 ''half-day'', sample_record 4 ''present''])
       + halfDay (calculateSummary [sample_record 1 ''present'', sample_record 2 ''absent'',
                       sample_record 3 ''half-day'', sample_record 4 ''present''])
       = total (calculateSummary [sample_record 1 ''present'', sample_record 2 ''absent'',
                       sample_record 3 ''half-day'', sample_record 4 ''present''])"
    by blast
  from t1 c have e: "total (calculateSummary [sample_record 1 ''present'', sample_record 2 ''absent'',
                       sample_record 3 ''half-day'', sample_record 4 ''present'']) = 4"
    by (simp only:)
  from t2 b have f: "present (calculateSummary [sample_record 1 ''present'', sample_record 2 ''late''])
       + absent (calculateSummary [sample_record 1 ''present'', sample_record 2 ''late''])
       + halfDay (calculateSummary [sample_record 1 ''present'', sample_record 2 ''late''])
       < total (calculateSummary [sample_record 1 ''present'', sample_record 2 ''late''])"
    by blast
  from a have a': "canonical (sample_record 1 ''present'') \<and> canonical (sample_record 2 ''absent'')
   \<and> canonical (sample_record 3 ''half-day'') \<and> canonical (sample_record 4 ''present'')"
    by simp
  from a' d e b f show ?thesis by (intro conjI) simp_all
qed

section \<open>Pagination\<close>

lemma slice_index_nat: "slice_index n (int a) = min a n"
  by (simp add: slice_index_def)

lemma take_cong_min: "min m (length ys) = min m' (length ys) \<Longrightarrow> take m ys = take m' ys"
  by (metis take_all_iff min_def linorder_le_cases)

lemma paginate_take_drop:
  assumes "1 \<le> k"
  shows "paginate P xs (int k) = take P (drop ((k - 1) * P) xs)"
proof -
  have kP: "k * P = (k - 1) * P + P"
    using assms by (metis add.commute le_add_diff_inverse mult_Suc plus_1_eq_Suc)
  have last: "int k * int P = int (k * P)" by simp
  have first: "int (k * P) - int P = int ((k - 1) * P)"
    by (subst kP) simp
  have "paginate P xs (int k)
          = take (min (k * P) (length xs) - min ((k - 1) * P) (length xs))
                 (drop (min ((k - 1) * P) (length xs)) xs)"
    unfolding paginate_def slice_def Let_def first last slice_index_nat ..
  also have "\<dots> = take P (drop ((k - 1) * P) xs)"
  proof (cases "(k - 1) * P \<le> length xs")
    case True
    then have m: "min ((k - 1) * P) (length xs) = (k - 1) * P" by simp
    have "min (min (k * P) (length xs) - (k - 1) * P) (length xs - (k - 1) * P)
            = min P (length xs - (k - 1) * P)"
      using True kP by arith
    then show ?thesis unfolding m
      by (intro take_cong_min) simp
  next
    case False
    then show ?thesis by simp
  qed
  finally show ?thesis .
qed

lemma concat_pages_take:
  "concat (map (\<lambda>k. take P (drop ((k - 1) * P) xs)) [1..<Suc m]) = take (m * P) xs"
proof (induction m)
  case 0
  show ?case by simp
next
  case (Suc m)
  have "concat (map (\<lambda>k. take P (drop ((k - 1) * P) xs)) [1..<Suc (Suc m)])
          = take (m * P) xs @ take P (drop (m * P) xs)"
    using Suc by simp
  also have "\<dots> = take (m * P + P) xs" by (simp add: take_add)
  finally show ?case by (simp add: add.commute)
qed

lemma pageCount_covers: "0 < P \<Longrightarrow> n \<le> pageCount n P * P"
proof -
  assume P: "0 < P"
  have n: "n = n div P * P + n mod P" by simp
  have lt: "n mod P < P" using P by simp
  show ?thesis
  proof (cases "n mod P = 0")
    case True
    with n show ?thesis by (simp add: pageCount_def)
  next
    case False
    have "n div P * P + n mod P \<le> n div P * P + P" using lt by (intro add_left_mono less_imp_le)
    then have "n \<le> n div P * P + P" by (simp only: div_mult_mod_eq)
    then have "n \<le> (n div P + 1) * P" by (simp only: add_mult_distrib mult_1)
    with False show ?thesis by (simp only: pageCount_def if_False)
  qed
qed

lemma pages_concat:
  assumes "0 < P"
  shows "concat (map (\<lambda>k. paginate P xs (int k)) [1..<Suc (pageCount (length xs) P)]) = xs"
proof -
  have "map (\<lambda>k. paginate P xs (int k)) [1..<Suc (pageCount (length xs) P)]
          = map (\<lambda>k. take P (drop ((k - 1) * P) xs)) [1..<Suc (pageCount (length xs) P)]"
    by (rule map_cong) (auto simp: paginate_take_drop)
  then have "concat (map (\<lambda>k. paginate P xs (int k)) [1..<Suc (pageCount (length xs) P)])
               = take (pageCount (length xs) P * P) xs"
    by (simp only: concat_pages_take)
  then show ?thesis using pageCount_covers[OF assms, of "length xs"] by simp
qed

lemma pageCount_least: "0 < P \<Longrightarrow> n \<le> m * P \<Longrightarrow> pageCount n P \<le> m"
proof -
  assume P: "0 < P" and le: "n \<le> m * P"
  have d: "n div P \<le> m" using le P by (metis div_le_mono nonzero_mult_div_cancel_right less_numeral_extra(3))
  show ?thesis
  proof (cases "n mod P = 0")
    case True then show ?thesis using d by (simp add: pageCount_def)
  next
    case False
    have "n div P \<noteq> m"
    proof
      assume "n div P = m"
      then have "m * P + n mod P = n" by (metis div_mult_mod_eq)
      with le False show False by simp
    qed
    with d False show ?thesis by (simp add: pageCount_def)
  qed
qed

lemma paginatedEmployees_coverage:
  "concat (map (\<lambda>k. paginatedEmployees es (int k))
             [1..<Suc (pageCount (length es) employeesPerPage)]) = es"
  unfolding paginatedEmployees_def by (rule pages_concat) (simp add: employeesPerPage_def)

lemma handleSearchChange_first_page:
  "search_ap (handleSearchChange v st) = v
   \<and> paginatedEmployees xs (currentPage (handleSearchChange v st)) = take employeesPerPage xs"
  using paginate_take_drop [of 1 employeesPerPage xs]
  by (simp add: handleSearchChange_def paginatedEmployees_def)

text \<open>
  Claim C7. For a collection \<open>xs\<close> and a page size \<open>P\<close> (a positive number; the page uses
  10), page \<open>k\<close>, counted from 1, is the slice from \<open>(k - 1) * P\<close> up to \<open>k * P\<close>, and
  the pages 1 to \<open>ceil (length xs / P)\<close>, one after the other, are \<open>xs\<close> again: same
  elements, same order, nothing twice and nothing left out.
\<close>

theorem pagination_coverage:
  assumes "0 < P"
  shows "concat (map (\<lambda>k. paginate P xs (int k)) [1..<Suc (pageCount (length xs) P)]) = xs
       \<and> (\<forall>k\<ge>1. paginate P xs (int k) = take P (drop ((k - 1) * P) xs))
       \<and> length xs \<le> pageCount (length xs) P * P
       \<and> (\<forall>m. length xs \<le> m * P \<longrightarrow> pageCount (length xs) P \<le> m)"
  using assms pages_concat [of P xs] paginate_take_drop [of _ P xs]
    pageCount_covers [of P "length xs"] pageCount_least [of P "length xs"]
  by blast

theorem pagination_coverage_witness:
  "(0::nat) < 2
   \<and> concat (map (\<lambda>k. paginate 2 [10, 20, 30, 40, 50 :: nat] (int k))
               [1..<Suc (pageCount (length [10, 20, 30, 40, 50 :: nat]) 2)])
       = [10, 20, 30, 40, 50]
   \<and> pageCount (length [10, 20, 30, 40, 50 :: nat]) 2 = 3
   \<and> paginate 2 [10, 20, 30, 40, 50 :: nat] 3 = [50]"
proof -
  have p: "(0::nat) < 2" by simp
  have c: "pageCount (length [10, 20, 30, 40, 50 :: nat]) 2 = 3" by (simp add: pageCount_def)
  have l: "paginate 2 [10, 20, 30, 40, 50 :: nat] 3 = [50]"
    by (simp add: paginate_def slice_def slice_index_def)
  from pagination_coverage [OF p, of "[10, 20, 30, 40, 50 :: nat]"] p c l
  show ?thesis by blast
qed

section \<open>Selection\<close>

lemma foldl_set_add_set: "set (foldl set_add acc xs) = set acc \<union> set xs"
  by (induction xs arbitrary: acc) (auto simp: set_add_def)

lemma foldl_set_add_distinct: "distinct acc \<Longrightarrow> distinct (foldl set_add acc xs)"
  by (induction xs arbitrary: acc) (auto simp: set_add_def)

lemma set_new_Set: "set (new_Set xs) = set xs"
  by (simp add: new_Set_def foldl_set_add_set)

lemma distinct_new_Set: "distinct (new_Set xs)"
  by (simp add: new_Set_def foldl_set_add_distinct)

lemma str_includes_empty: "str_includes s []"
  by (simp add: str_includes_def)

lemma filteredEmployees_filter:
  "filteredEmployees emps s =
     filter (\<lambda>emp. str_includes (toLowerCase (name emp)) (toLowerCase s)
                  \<or> str_includes (num_toString (id_emp emp)) s) emps"
  by (simp add: filteredEmployees_def str_includes_empty toLowerCase_def Let_def)

text \<open>
  Claim C9. Checking "select all" replaces the selection by the ids of the employees the
  current search shows, each once, and unchecking it by the empty set; nothing else in the
  state changes. An id is selected afterwards only if an employee with that id matches the
  search, so an employee the search hides is not added, and is dropped if it was selected
  before.
\<close>

theorem handleSelectAll_filtered:
  "set (selectedEmployees (handleSelectAll True st))
       = id_emp ` set (filteredEmployees (employees st) (search st))
   \<and> distinct (selectedEmployees (handleSelectAll True st))
   \<and> selectedEmployees (handleSelectAll False st) = []
   \<and> (\<forall>e \<in> set (employees st).
         id_emp e \<in> set (selectedEmployees (handleSelectAll True st))
         \<longrightarrow> (\<exists>v \<in> set (employees st). id_emp v = id_emp e
                \<and> (str_includes (toLowerCase (name v)) (toLowerCase (search st))
                     \<or> str_includes (num_toString (id_emp v)) (search st))))
   \<and> handleSelectAll b st = st\<lparr>selectedEmployees := selectedEmployees (handleSelectAll b st)\<rparr>"
proof (intro conjI)
  show s: "set (selectedEmployees (handleSelectAll True st))
       = id_emp ` set (filteredEmployees (employees st) (search st))"
    by (simp add: handleSelectAll_def set_new_Set)
  show "distinct (selectedEmployees (handleSelectAll True st))"
    by (simp add: handleSelectAll_def distinct_new_Set)
  show "selectedEmployees (handleSelectAll False st) = []"
    by (simp add: handleSelectAll_def)
  show "\<forall>e \<in> set (employees st).
         id_emp e \<in> set (selectedEmployees (handleSelectAll True st))
         \<longrightarrow> (\<exists>v \<in> set (employees st). id_emp v = id_emp e
                \<and> (str_includes (toLowerCase (name v)) (toLowerCase (search st))
                     \<or> str_includes (num_toString (id_emp v)) (search st)))"
    unfolding s filteredEmployees_filter by auto
  show "handleSelectAll b st = st\<lparr>selectedEmployees := selectedEmployees (handleSelectAll b st)\<rparr>"
    by (simp add: handleSelectAll_def)
qed

theorem handleSelectAll_filtered_witness:
  "asha \<in> set (employees searching_state)
   \<and> id_emp asha \<in> set (selectedEmployees searching_state)
   \<and> selectedEmployees (handleSelectAll True searching_state) = [2]
   \<and> set (selectedEmployees (handleSelectAll True searching_state))
       = id_emp ` set (filteredEmployees (employees searching_state) (search searching_state))
   \<and> id_emp asha \<notin> set (selectedEmployees (handleSelectAll True searching_state))
   \<and> selectedEmployees (handleSelectAll False searching_state) = []"
proof -
  have a: "asha \<in> set (employees searching_state)"
    by (simp add: searching_state_def ready_state_def)
  have b: "id_emp asha \<in> set (selectedEmployees searching_state)"
    by (simp add: searching_state_def ready_state_def asha_def)
  have c: "selectedEmployees (handleSelectAll True searching_state) = [2]"
    by code_simp
  have d: "id_emp asha \<notin> set (selectedEmployees (handleSelectAll True searching_state))"
    unfolding c by (simp add: asha_def)
  from handleSelectAll_filtered [of searching_state True] a b c d
  show ?thesis by blast
qed

section \<open>Bulk submission: validation\<close>

lemma of_char_eq_nat: "(of_char a :: nat) = of_char b \<Longrightarrow> a = b"
  by (metis char_of_char)

lemma str_le_lexord:
  "str_le s t \<longleftrightarrow> s = t \<or> (s, t) \<in> lexord {(a, b). (of_char a :: nat) < of_char b}"
proof (induction s t rule: str_le.induct)
  case (1 t)
  show ?case by (cases t) auto
next
  case (2 a s)
  show ?case by simp
next
  case (3 a s b t)
  show ?case
  proof (cases "(of_char a :: nat) < of_char b")
    case True
    then show ?thesis by auto
  next
    case False
    note nlt = this
    show ?thesis
    proof (cases "(of_char b :: nat) < of_char a")
      case True
      then show ?thesis using nlt by auto
    next
      case False
      with nlt have "a = b" by (simp add: of_char_eq_nat)
      with 3 nlt False show ?thesis by auto
    qed
  qed
qed

lemma getCurrentDate_pads: "getCurrentDate (2024, 4, 9) = ''2024-05-09''"
  by code_simp

lemma begin_valid:
  assumes "selectedStatus st \<noteq> []" "selectedEmployees st \<noteq> []" "isDateValid st"
  shows "markBulkAttendance_begin st =
     (st\<lparr>isMarking := True,
            employees :=
              map (\<lambda>emp. if id_emp emp \<in> set (selectedEmployees st)
                         then emp\<lparr>lastStatus := Some (selectedStatus st)\<rparr> else emp)
                  (employees st),
            requests := requests st
              @ [PostBulkMark (selectedEmployees st) (selectedStatus st) (selectedDate st)]\<rparr>,
         Some \<lparr>employeeIds = selectedEmployees st, prevEmployees = employees st,
               markedStatus = selectedStatus st\<rparr>)"
  using assms by (simp add: markBulkAttendance_begin_def)

lemma begin_invalid:
  assumes "selectedStatus st = [] \<or> selectedEmployees st = [] \<or> \<not> isDateValid st"
  shows "snd (markBulkAttendance_begin st) = None"
    and "requests (fst (markBulkAttendance_begin st)) = requests st"
    and "employees (fst (markBulkAttendance_begin st)) = employees st"
    and "selectedEmployees (fst (markBulkAttendance_begin st)) = selectedEmployees st"
    and "isMarking (fst (markBulkAttendance_begin st)) = isMarking st"
    and "\<exists>m. toasts (fst (markBulkAttendance_begin st)) = toasts st @ [(ToastError, Some m)]"
  using assms
  by (auto simp: markBulkAttendance_begin_def showToast_def showDateWarningNotification_def)

lemma resume_requests: "requests (markBulkAttendance_resume r p st) = requests st"
  by (cases r) (simp_all add: markBulkAttendance_resume_def catch_toast_def showToast_def)

lemma markBulkAttendance_invalid:
  assumes "snd (markBulkAttendance_begin st) = None"
  shows "markBulkAttendance resp st = fst (markBulkAttendance_begin st)"
  using assms by (cases "markBulkAttendance_begin st") (simp add: markBulkAttendance_def)

lemma markBulkAttendance_requests:
  "requests (markBulkAttendance resp st) = requests (fst (markBulkAttendance_begin st))"
  by (cases "markBulkAttendance_begin st")
     (auto simp: markBulkAttendance_def resume_requests split: option.splits)

lemma markBulkAttendance_guards:
  fixes st :: bulk_state and resp :: mark_response
  defines "invalid \<equiv> selectedEmployees st = [] \<or> selectedStatus st = [] \<or> \<not> isDateValid st"
  defines "after \<equiv> markBulkAttendance resp st"
  shows "(invalid \<longrightarrow>
            requests after = requests st \<and> employees after = employees st
            \<and> selectedEmployees after = selectedEmployees st \<and> isMarking after = isMarking st
            \<and> (\<exists>m. toasts after = toasts st @ [(ToastError, Some m)])
            \<and> snd (markBulkAttendance_begin st) = None)
       \<and> (\<not> invalid \<longrightarrow>
            requests after = requests st
              @ [PostBulkMark (selectedEmployees st) (selectedStatus st) (selectedDate st)]
            \<and> snd (markBulkAttendance_begin st) \<noteq> None
            \<and> toasts (fst (markBulkAttendance_begin st)) = toasts st)"
proof (intro conjI impI)
  assume inv: invalid
  then have i: "selectedStatus st = [] \<or> selectedEmployees st = [] \<or> \<not> isDateValid st"
    unfolding invalid_def by blast
  have a: "after = fst (markBulkAttendance_begin st)"
    unfolding after_def by (rule markBulkAttendance_invalid) (rule begin_invalid(1)[OF i])
  show "requests after = requests st" unfolding a by (rule begin_invalid(2)[OF i])
  show "employees after = employees st" unfolding a by (rule begin_invalid(3)[OF i])
  show "selectedEmployees after = selectedEmployees st" unfolding a by (rule begin_invalid(4)[OF i])
  show "isMarking after = isMarking st" unfolding a by (rule begin_invalid(5)[OF i])
  show "\<exists>m. toasts after = toasts st @ [(ToastError, Some m)]"
    unfolding a by (rule begin_invalid(6)[OF i])
  show "snd (markBulkAttendance_begin st) = None" by (rule begin_invalid(1)[OF i])
next
  assume "\<not> invalid"
  then have v: "selectedStatus st \<noteq> []" "selectedEmployees st \<noteq> []" "isDateValid st"
    unfolding invalid_def by blast+
  note b = begin_valid[OF v]
  show "requests after = requests st
              @ [PostBulkMark (selectedEmployees st) (selectedStatus st) (selectedDate st)]"
    unfolding after_def markBulkAttendance_requests b by simp
  show "snd (markBulkAttendance_begin st) \<noteq> None" unfolding b by simp
  show "toasts (fst (markBulkAttendance_begin st)) = toasts st" unfolding b by simp
qed

lemma handleDateChange_memo:
  "selectedDate (handleDateChange today d st) = d
   \<and> isDateValid (handleDateChange today d st)
       = (if d = selectedDate st then isDateValid st else str_le d today)"
  by (simp add: handleDateChange_def showDateWarningNotification_def showToast_def
      isDateValid_body_def Let_def)

lemma mounted_date_is_valid:
  "isDateValid (initial_state today) \<and> selectedDate (initial_state today) = today"
proof -
  have "str_le s s" for s by (induction s) simp_all
  then show ?thesis by (simp add: initial_state_def isDateValid_body_def)
qed

lemma str_le_trans: "str_le a b \<Longrightarrow> str_le b c \<Longrightarrow> str_le a c"
proof (induction a b arbitrary: c rule: str_le.induct)
  case (1 t)
  show ?case by simp
next
  case (2 a s)
  then show ?case by simp
next
  case (3 a s b t)
  then obtain c' u where c: "c = c' # u" by (cases c) auto
  from 3 c show ?case
    by (auto split: if_splits)
qed

lemma valid_memo_sound:
  assumes "isDateValid (handleDateChange t0 d st)" "d \<noteq> selectedDate st" "str_le t0 t1"
  shows "str_le (selectedDate (handleDateChange t0 d st)) t1"
proof -
  from assms(1,2) have "str_le d t0" by (simp add: handleDateChange_memo)
  then have "str_le d t1" using assms(3) by (rule str_le_trans)
  then show ?thesis by (simp add: handleDateChange_memo)
qed


section \<open>Roster cache\<close>

lemma CACHE_DURATION_ms: "CACHE_DURATION = 300000" by (simp add: CACHE_DURATION_def)

lemma fetch_fresh:
  assumes "employeeCache st = \<lparr>data = Some d, timestamp = Some t0\<rparr>" "now - t0 < 300000"
  shows "fetchEmployees now resp st = st\<lparr>employees := d, isLoading := False\<rparr>"
  using assms by (simp add: fetchEmployees_def CACHE_DURATION_def)

lemma fetch_expired_requests:
  assumes "employeeCache st = \<lparr>data = Some d, timestamp = Some t0\<rparr>" "\<not> now - t0 < 300000"
  shows "requests (fetchEmployees now resp st) = requests st @ [GetEmployees]"
  using assms
  by (cases resp) (simp_all add: fetchEmployees_def CACHE_DURATION_def showToast_def Let_def)

lemma fetch_expired_ok:
  assumes "employeeCache st = \<lparr>data = Some d, timestamp = Some t0\<rparr>" "\<not> now - t0 < 300000"
  shows "fetchEmployees now (Ok d') st
           = st\<lparr>requests := requests st @ [GetEmployees],
                employeeCache := \<lparr>data = Some d', timestamp = Some now\<rparr>,
                employees := d', isLoading := False\<rparr>"
  using assms by (simp add: fetchEmployees_def CACHE_DURATION_def Let_def)

lemma fetch_empty_cache:
  assumes "data (employeeCache st) = None"
  shows "fetchEmployees now (Ok d) st
           = st\<lparr>requests := requests st @ [GetEmployees],
                employeeCache := \<lparr>data = Some d, timestamp = Some now\<rparr>,
                employees := d, isLoading := False\<rparr>"
  using assms by (simp add: fetchEmployees_def Let_def)

text \<open>
  Claim C5. With the roster \<open>d\<close> cached at time \<open>t0\<close>, a load at time \<open>now\<close> serves
  \<open>d\<close> from the cache, without a request, exactly when \<open>now - t0 < 300000\<close>. Otherwise it
  asks the network, and a successful answer replaces the entry and stamps it with \<open>now\<close>.
\<close>

theorem roster_cache_ttl:
  assumes "employeeCache st = \<lparr>data = Some d, timestamp = Some t0\<rparr>"
  shows "(now - t0 < 300000 \<longrightarrow>
            fetchEmployees now resp st = st\<lparr>employees := d, isLoading := False\<rparr>)
       \<and> (\<not> now - t0 < 300000 \<longrightarrow>
            requests (fetchEmployees now resp st) = requests st @ [GetEmployees]
            \<and> fetchEmployees now (Ok d') st
                = st\<lparr>requests := requests st @ [GetEmployees],
                     employeeCache := \<lparr>data = Some d', timestamp = Some now\<rparr>,
                     employees := d', isLoading := False\<rparr>)"
  using fetch_fresh [OF assms] fetch_expired_requests [OF assms] fetch_expired_ok [OF assms]
  by blast

theorem roster_cache_ttl_witness:
  "employeeCache loaded_state = \<lparr>data = Some [asha, ravi], timestamp = Some 1000\<rparr>
   \<and> (1000 + 299999 :: int) - 1000 < 300000
   \<and> fetchEmployees (1000 + 299999) Failed loaded_state
       = loaded_state\<lparr>employees := [asha, ravi], isLoading := False\<rparr>
   \<and> \<not> (1000 + 300001 :: int) - 1000 < 300000
   \<and> requests (fetchEmployees (1000 + 300001) (Ok [ravi]) loaded_state)
       = requests loaded_state @ [GetEmployees]
   \<and> employeeCache (fetchEmployees (1000 + 300001) (Ok [ravi]) loaded_state)
       = \<lparr>data = Some [ravi], timestamp = Some (1000 + 300001)\<rparr>"
proof -
  have h: "employeeCache loaded_state = \<lparr>data = Some [asha, ravi], timestamp = Some 1000\<rparr>"
    by (simp add: loaded_state_def initial_state_def fetch_empty_cache)
  have a: "(1000 + 299999 :: int) - 1000 < 300000" by simp
  have b: "\<not> (1000 + 300001 :: int) - 1000 < 300000" by simp
  from roster_cache_ttl [OF h, of "1000 + 299999" Failed] a
  have c: "fetchEmployees (1000 + 299999) Failed loaded_state
       = loaded_state\<lparr>employees := [asha, ravi], isLoading := False\<rparr>"
    by blast
  from roster_cache_ttl [OF h, of "1000 + 300001" "Ok [ravi]" "[ravi]"] b
  have d: "requests (fetchEmployees (1000 + 300001) (Ok [ravi]) loaded_state)
       = requests loaded_state @ [GetEmployees]"
    and e: "fetchEmployees (1000 + 300001) (Ok [ravi]) loaded_state
                = loaded_state\<lparr>requests := requests loaded_state @ [GetEmployees],
                     employeeCache := \<lparr>data = Some [ravi], timestamp = Some (1000 + 300001)\<rparr>,
                     employees := [ravi], isLoading := False\<rparr>"
    by blast+
  have f: "employeeCache (fetchEmployees (1000 + 300001) (Ok [ravi]) loaded_state)
       = \<lparr>data = Some [ravi], timestamp = Some (1000 + 300001)\<rparr>"
    unfolding e by simp
  from h a b c d f show ?thesis by blast
qed

section \<open>Bulk submission: optimistic update and rollback\<close>

lemma rejected_rolls_back:
  assumes "markBulkAttendance_begin st = (st1, Some p)"
  shows "employees (markBulkAttendance_resume (MarkNotOk m) p st1) = employees st"
    and "employees (markBulkAttendance_resume (MarkNotOkBodyThrows e) p st1) = employees st"
    and "selectedEmployees (markBulkAttendance_resume (MarkNotOk m) p st1) = selectedEmployees st"
    and "selectedEmployees (markBulkAttendance_resume (MarkNotOkBodyThrows e) p st1)
           = selectedEmployees st"
  using assms
  by (auto simp: markBulkAttendance_begin_def markBulkAttendance_resume_def catch_toast_def
      showToast_def split: if_splits)

lemma fetch_failure_keeps_state:
  assumes "markBulkAttendance_begin st = (st1, Some p)"
  shows "selectedEmployees (markBulkAttendance_resume (MarkFetchThrows e) p st1)
           = selectedEmployees st"
    and "employees (markBulkAttendance_resume (MarkFetchThrows e) p st1)
           = map (\<lambda>emp. if id_emp emp \<in> set (selectedEmployees st)
                         then emp\<lparr>lastStatus := Some (selectedStatus st)\<rparr> else emp)
                 (employees st)"
  using assms
  by (auto simp: markBulkAttendance_begin_def markBulkAttendance_resume_def catch_toast_def
      showToast_def split: if_splits)

text \<open>
  Claim C1. After a rejected or failed bulk submission the employees should be the
  snapshot again and the selection untouched. A non-2xx response does restore the snapshot
  (\<open>rejected_rolls_back\<close>). When \<open>fetch\<close> itself fails, the \<open>catch\<close> block only shows a
  toast: with Asha and Ravi selected and \<open>present\<close> submitted, both keep the
  \<open>lastStatus\<close> \<open>present\<close> that the optimistic update gave them, although nothing was
  recorded. The selection is kept.
\<close>

theorem network_failure_keeps_optimistic_update:
  "employees (markBulkAttendance (MarkFetchThrows ''Failed to fetch'') ready_state)
     = [asha\<lparr>lastStatus := Some ''present''\<rparr>, ravi\<lparr>lastStatus := Some ''present''\<rparr>]
   \<and> employees (markBulkAttendance (MarkFetchThrows ''Failed to fetch'') ready_state)
       \<noteq> employees ready_state
   \<and> employees (markBulkAttendance (MarkNotOk (Some ''Server error'')) ready_state)
       = employees ready_state
   \<and> selectedEmployees (markBulkAttendance (MarkFetchThrows ''Failed to fetch'') ready_state)
       = selectedEmployees ready_state"
  by code_simp

section \<open>Bulk submission: one request at a time\<close>

lemma isMarking_handleEmployeeSelect: "isMarking (handleEmployeeSelect i st) = isMarking st"
  by (simp add: handleEmployeeSelect_def)

lemma isMarking_handleSelectAll: "isMarking (handleSelectAll b st) = isMarking st"
  by (simp add: handleSelectAll_def)

lemma isMarking_handleDateChange: "isMarking (handleDateChange today d st) = isMarking st"
  by (simp add: handleDateChange_def showDateWarningNotification_def showToast_def Let_def)

lemma isMarking_fetchEmployees: "isMarking (fetchEmployees now r st) = isMarking st"
  by (cases r; cases "data (employeeCache st)")
     (simp_all add: fetchEmployees_def showToast_def Let_def)

lemma isMarking_resume_unmounted:
  "isMarking (markBulkAttendance_resume_unmounted r p st) = isMarking st"
  by (cases r) (simp_all add: markBulkAttendance_resume_unmounted_def catch_toast_def showToast_def)

lemma begin_Some_isMarking:
  "markBulkAttendance_begin st = (st1, Some p) \<Longrightarrow> isMarking st1"
  by (auto simp: markBulkAttendance_begin_def split: if_splits)

lemma begin_None_isMarking:
  "markBulkAttendance_begin st = (st1, None) \<Longrightarrow> isMarking st1 = isMarking st"
  by (auto simp: markBulkAttendance_begin_def showToast_def showDateWarningNotification_def
      split: if_splits)

lemma filter_remove_nth:
  assumes "n < length xs"
  shows "length (filter P (remove_nth n xs))
           = length (filter P xs) - (if P (xs ! n) then 1 else 0)"
proof -
  have "xs = take n xs @ xs ! n # drop (Suc n) xs"
    using assms by (simp add: id_take_nth_drop)
  then have "filter P xs = filter P (take n xs) @ filter P [xs ! n] @ filter P (drop (Suc n) xs)"
    by (metis append_Cons append_Nil filter_append)
  then show ?thesis by (simp add: remove_nth_def)
qed

lemma filter_remove_nth_other:
  assumes "n < length xs" "\<not> P (xs ! n)"
  shows "filter P (remove_nth n xs) = filter P xs"
proof -
  have "xs = take n xs @ xs ! n # drop (Suc n) xs"
    using assms by (simp add: id_take_nth_drop)
  then have "filter P xs = filter P (take n xs @ xs ! n # drop (Suc n) xs)" by simp
  also have "\<dots> = filter P (take n xs) @ filter P (drop (Suc n) xs)"
    using assms(2) by simp
  finally show ?thesis by (simp add: remove_nth_def)
qed

lemma one_in_flight_ui:
  assumes "one_in_flight s" "\<And>st. isMarking (f st) = isMarking st"
  shows "one_in_flight (ui s f)"
  using assms by (simp add: one_in_flight_def ui_def current_awaited_def)

lemma awaited_ui: "awaited (ui s f) = awaited s \<and> mount (ui s f) = mount s"
  by (simp add: ui_def)

lemma set_remove_nth: "set (remove_nth n xs) \<subseteq> set xs"
  unfolding remove_nth_def by (auto dest: in_set_takeD in_set_dropD)

lemma awaited_from_past_step: "awaited_from_past s \<Longrightarrow> awaited_from_past (step s e)"
proof -
  assume a: "awaited_from_past s"
  show ?thesis
  proof (cases e)
    case ClickMark
    with a show ?thesis
      by (cases "markBulkAttendance_begin (page s)")
         (auto simp: awaited_from_past_def split: option.splits)
  next
    case (Respond n r)
    with a set_remove_nth [of n "awaited s"] show ?thesis
      by (auto simp: awaited_from_past_def list_all_iff)
  next
    case (Remount today)
    with a show ?thesis by (auto simp: awaited_from_past_def list_all_iff)
  qed (use a in \<open>simp_all add: awaited_from_past_def awaited_ui\<close>)
qed

lemma one_in_flight_step:
  assumes i: "one_in_flight s" and past: "awaited_from_past s"
  shows "one_in_flight (step s e)"
proof -
  from i have len: "length (current_awaited s) \<le> 1"
    and mk: "current_awaited s = [] \<or> isMarking (page s)"
    by (simp_all add: one_in_flight_def)
  show ?thesis
  proof (cases e)
    case ClickMark
    show ?thesis
    proof (cases "isLoading (page s) \<or> mark_button_disabled (page s)")
      case True
      with ClickMark i show ?thesis by simp
    next
      case False
      then have "\<not> isMarking (page s)" by (simp add: mark_button_disabled_def)
      with mk have e: "current_awaited s = []" by simp
      obtain st1 r where b: "markBulkAttendance_begin (page s) = (st1, r)"
        by (cases "markBulkAttendance_begin (page s)")
      show ?thesis
      proof (cases r)
        case None
        with ClickMark False b e show ?thesis
          by (simp add: one_in_flight_def current_awaited_def)
      next
        case (Some p)
        with b have "isMarking st1" by (simp add: begin_Some_isMarking)
        with ClickMark False b e Some show ?thesis
          by (simp add: one_in_flight_def current_awaited_def)
      qed
    qed
  next
    case (Respond n r)
    show ?thesis
    proof (cases "n < length (awaited s)")
      case False
      with Respond i show ?thesis by simp
    next
      case True
      show ?thesis
      proof (cases "fst (awaited s ! n) = mount s")
        case True
        have "length (filter (\<lambda>a. fst a = mount s) (remove_nth n (awaited s)))
                = length (filter (\<lambda>a. fst a = mount s) (awaited s)) - 1"
          using filter_remove_nth [OF \<open>n < length (awaited s)\<close>, of "\<lambda>a. fst a = mount s"] True
          by simp
        with len have "filter (\<lambda>a. fst a = mount s) (remove_nth n (awaited s)) = []"
          by (simp add: current_awaited_def)
        with Respond \<open>n < length (awaited s)\<close> show ?thesis
          by (simp add: one_in_flight_def current_awaited_def)
      next
        case False
        have "filter (\<lambda>a. fst a = mount s) (remove_nth n (awaited s))
                = filter (\<lambda>a. fst a = mount s) (awaited s)"
          by (rule filter_remove_nth_other) (use True False in simp_all)
        with Respond True False len mk show ?thesis
          by (simp add: one_in_flight_def current_awaited_def isMarking_resume_unmounted)
      qed
    qed
  next
    case (Load now r)
    with len mk show ?thesis
      by (simp add: one_in_flight_def current_awaited_def isMarking_fetchEmployees)
  next
    case (Toggle x)
    with i show ?thesis by (simp add: one_in_flight_ui isMarking_handleEmployeeSelect)
  next
    case (SelectAll b)
    with i show ?thesis by (simp add: one_in_flight_ui isMarking_handleSelectAll)
  next
    case (ChangeStatus x)
    with i show ?thesis by (simp add: one_in_flight_ui)
  next
    case (ChangeDate today d)
    with i show ?thesis by (simp add: one_in_flight_ui isMarking_handleDateChange)
  next
    case (ChangeSearch x)
    with i show ?thesis by (simp add: one_in_flight_ui)
  next
    case HideDateWarning
    with len mk show ?thesis by (simp add: one_in_flight_def current_awaited_def)
  next
    case (Remount today)
    have "filter (\<lambda>a. fst a = Suc (mount s)) (awaited s) = []"
      using past by (auto simp: awaited_from_past_def list_all_iff filter_empty_conv)
    with Remount show ?thesis by (simp add: one_in_flight_def current_awaited_def)
  qed
qed

lemma invariants_run:
  "one_in_flight s \<Longrightarrow> awaited_from_past s
     \<Longrightarrow> one_in_flight (run s evs) \<and> awaited_from_past (run s evs)"
  unfolding run_def
  by (induction evs arbitrary: s) (simp_all add: one_in_flight_step awaited_from_past_step)

lemma invariants_boot: "one_in_flight (boot today) \<and> awaited_from_past (boot today)"
  by (simp add: one_in_flight_def awaited_from_past_def boot_def current_awaited_def)

lemma click_while_awaited:
  assumes "one_in_flight s" "current_awaited s \<noteq> []"
  shows "step s ClickMark = s"
  using assms by (simp add: one_in_flight_def mark_button_disabled_def)

text \<open>
  Claim C2, as stated: a submit while one is in flight is rejected. It is not: called a
  second time while \<open>isMarking\<close> is set, \<open>markBulkAttendance\<close> issues a second request.
\<close>

theorem second_submit_not_rejected:
  "isMarking (fst (markBulkAttendance_begin ready_state))
   \<and> snd (markBulkAttendance_begin (fst (markBulkAttendance_begin ready_state))) \<noteq> None
   \<and> requests (fst (markBulkAttendance_begin (fst (markBulkAttendance_begin ready_state))))
       = [GetEmployees, PostBulkMark [1, 2] ''present'' ''2024-05-10'',
          PostBulkMark [1, 2] ''present'' ''2024-05-10'']"
  by code_simp

text \<open>
  Nor does the button keep requests apart across mounts: \<open>isMarking\<close> is component state,
  and the request is not aborted when the page is left. After a click, leaving the page and
  coming back gives a page that is not marking; a click there issues a second request while
  the first is still awaited.
\<close>

lemma remount_allows_second_request:
  "length (awaited (run (boot ''2024-05-10'')
             [Load 1000 (Ok [asha, ravi]), SelectAll True, ChangeStatus ''present'', ClickMark,
              Remount ''2024-05-10'', Load 2000 Failed, SelectAll True,
              ChangeStatus ''absent'', ClickMark])) = 2
   \<and> length (current_awaited (run (boot ''2024-05-10'')
             [Load 1000 (Ok [asha, ravi]), SelectAll True, ChangeStatus ''present'', ClickMark,
              Remount ''2024-05-10'', Load 2000 Failed, SelectAll True,
              ChangeStatus ''absent'', ClickMark])) = 1"
  by code_simp

text \<open>
  Claim C2, amended. \<open>markBulkAttendance\<close> does not look at \<open>isMarking\<close>; the button
  that calls it is disabled while \<open>isMarking\<close> is set. So, from the moment the
  application opens the page, whatever the user does (leaving and re-entering the page
  included), whenever the responses arrive and whatever they are, at most one of the
  submissions that the currently mounted page made awaits its response; while one does,
  \<open>isMarking\<close> is set and a click on the button changes nothing. Counting the
  submissions of earlier mounts as well, two can await their responses at once.
\<close>

theorem button_allows_one_submission:
  "length (current_awaited (run (boot today) evs)) \<le> 1
   \<and> (current_awaited (run (boot today) evs) = []
        \<or> isMarking (page (run (boot today) evs))
           \<and> step (run (boot today) evs) ClickMark = run (boot today) evs)
   \<and> (\<exists>evs'. length (awaited (run (boot ''2024-05-10'') evs')) = 2
               \<and> length (current_awaited (run (boot ''2024-05-10'') evs')) = 1)"
proof -
  have i: "one_in_flight (run (boot today) evs)"
    using invariants_run [of "boot today" evs] invariants_boot [of today] by blast
  have "length (current_awaited (run (boot today) evs)) \<le> 1
        \<and> (current_awaited (run (boot today) evs) = []
             \<or> isMarking (page (run (boot today) evs))
                \<and> step (run (boot today) evs) ClickMark = run (boot today) evs)"
    using i click_while_awaited [OF i] by (auto simp: one_in_flight_def)
  moreover have "\<exists>evs'. length (awaited (run (boot ''2024-05-10'') evs')) = 2
               \<and> length (current_awaited (run (boot ''2024-05-10'') evs')) = 1"
    using remount_allows_second_request by blast
  ultimately show ?thesis by blast
qed

theorem button_allows_one_submission_witness:
  "length (current_awaited (run (boot ''2024-05-10'')
            [Load 1000 (Ok [asha, ravi]), SelectAll True, ChangeStatus ''present'',
             ClickMark, ClickMark, Toggle 1, ClickMark])) = 1
   \<and> isMarking (page (run (boot ''2024-05-10'')
            [Load 1000 (Ok [asha, ravi]), SelectAll True, ChangeStatus ''present'',
             ClickMark, ClickMark, Toggle 1, ClickMark]))
   \<and> requests (page (run (boot ''2024-05-10'')
            [Load 1000 (Ok [asha, ravi]), SelectAll True, ChangeStatus ''present'',
             ClickMark, ClickMark, Toggle 1, ClickMark]))
       = [GetEmployees, PostBulkMark [1, 2] ''present'' ''2024-05-10'']"
proof -
  have b: "current_awaited (run (boot ''2024-05-10'')
            [Load 1000 (Ok [asha, ravi]), SelectAll True, ChangeStatus ''present'',
             ClickMark, ClickMark, Toggle 1, ClickMark]) \<noteq> []"
    by code_simp
  have c: "requests (page (run (boot ''2024-05-10'')
            [Load 1000 (Ok [asha, ravi]), SelectAll True, ChangeStatus ''present'',
             ClickMark, ClickMark, Toggle 1, ClickMark]))
       = [GetEmployees, PostBulkMark [1, 2] ''present'' ''2024-05-10'']"
    by code_simp
  note t = button_allows_one_submission [of "''2024-05-10''"
      "[Load 1000 (Ok [asha, ravi]), SelectAll True, ChangeStatus ''present'',
        ClickMark, ClickMark, Toggle 1, ClickMark]"]
  from t b have d: "isMarking (page (run (boot ''2024-05-10'')
            [Load 1000 (Ok [asha, ravi]), SelectAll True, ChangeStatus ''present'',
             ClickMark, ClickMark, Toggle 1, ClickMark]))"
    by blast
  from t b have e: "length (current_awaited (run (boot ''2024-05-10'')
            [Load 1000 (Ok [asha, ravi]), SelectAll True, ChangeStatus ''present'',
             ClickMark, ClickMark, Toggle 1, ClickMark])) = 1"
    by (cases "current_awaited (run (boot ''2024-05-10'')
            [Load 1000 (Ok [asha, ravi]), SelectAll True, ChangeStatus ''present'',
             ClickMark, ClickMark, Toggle 1, ClickMark])") auto
  from c d e show ?thesis by blast
qed

section \<open>Search\<close>

lemma lower_char_below_A: "(of_char c :: nat) < 65 \<Longrightarrow> lower_char c = c"
  by (simp add: lower_char_def Let_def)

lemma lower_char_result_below_A:
  assumes "(of_char (lower_char c) :: nat) < 65"
  shows "lower_char c = c"
proof (cases "65 \<le> (of_char c :: nat) \<and> (of_char c :: nat) \<le> 90")
  case True
  then have "lower_char c = char_of ((of_char c :: nat) + 32)" by (simp add: lower_char_def Let_def)
  then have "(of_char (lower_char c) :: nat) = ((of_char c :: nat) + 32) mod 256" by simp
  moreover have "((of_char c :: nat) + 32) mod 256 = (of_char c :: nat) + 32" using True by simp
  ultimately show ?thesis using assms True by simp
next
  case False
  then show ?thesis by (auto simp: lower_char_def Let_def)
qed

lemma digit_char_code: "d < 10 \<Longrightarrow> (of_char (digit_char d) :: nat) = 48 + d"
  by (simp add: digit_char_def)

lemma digits_below_A: "c \<in> set (digits n) \<Longrightarrow> (of_char c :: nat) < 65"
proof (induction n arbitrary: c rule: digits.induct)
  case (1 n)
  show ?case
  proof (cases "n < 10")
    case True
    with "1.prems" have "c = digit_char n" by (subst (asm) digits.simps) simp
    with True show ?thesis by (simp add: digit_char_code)
  next
    case False
    with "1.prems" have "c \<in> set (digits (n div 10)) \<or> c = digit_char (n mod 10)"
      by (subst (asm) digits.simps) auto
    then show ?thesis
    proof
      assume "c \<in> set (digits (n div 10))"
      with "1.IH" False show ?thesis by simp
    next
      assume "c = digit_char (n mod 10)"
      then show ?thesis by (simp add: digit_char_code)
    qed
  qed
qed

lemma num_toString_below_A: "c \<in> set (num_toString i) \<Longrightarrow> (of_char c :: nat) < 65"
  by (auto simp: num_toString_def Let_def digits_below_A split: if_splits)

lemma toLowerCase_num_toString: "toLowerCase (num_toString i) = num_toString i"
  unfolding toLowerCase_def by (rule map_idI) (simp add: lower_char_below_A num_toString_below_A)

lemma includes_num_lower:
  "str_includes (num_toString i) (toLowerCase t) \<longleftrightarrow> str_includes (num_toString i) t"
proof
  assume "str_includes (num_toString i) (toLowerCase t)"
  then have "set (toLowerCase t) \<subseteq> set (num_toString i)"
    unfolding str_includes_def by (rule set_mono_sublist)
  then have "\<forall>c \<in> set t. (of_char (lower_char c) :: nat) < 65"
    by (auto simp: toLowerCase_def intro: num_toString_below_A)
  then have "toLowerCase t = t"
    unfolding toLowerCase_def by (intro map_idI) (simp add: lower_char_result_below_A)
  with \<open>str_includes (num_toString i) (toLowerCase t)\<close> show "str_includes (num_toString i) t"
    by simp
next
  assume a: "str_includes (num_toString i) t"
  then have "set t \<subseteq> set (num_toString i)"
    unfolding str_includes_def by (rule set_mono_sublist)
  then have "toLowerCase t = t"
    unfolding toLowerCase_def by (intro map_idI) (auto intro: lower_char_below_A num_toString_below_A)
  with a show "str_includes (num_toString i) (toLowerCase t)" by simp
qed

lemma ci_includes_num:
  "ci_includes (num_toString i) t \<longleftrightarrow> str_includes (num_toString i) t"
  by (simp add: ci_includes_def toLowerCase_num_toString includes_num_lower)

lemma filteredEmployees_match: "filteredEmployees emps t = filter (employee_match t) emps"
  unfolding filteredEmployees_filter employee_match_def ci_includes_num
  by (simp add: ci_includes_def)

lemma filteredEmployees_AttendancePage_match:
  "filteredEmployees_AttendancePage emps t = filter (employee_match t) emps"
  unfolding filteredEmployees_AttendancePage_def employee_match_def ci_includes_num
  by (simp add: ci_includes_def includes_num_lower)

lemma filter_throwing_total:
  assumes "\<forall>x \<in> set xs. p x = Inr (q x)"
  shows "filter_throwing p xs = Inr (filter q xs)"
  using assms by (induction xs) simp_all

lemma opt_lower_includes_field:
  assumes "is_str v \<or> nullish v"
  shows "opt_lower_includes v (toLowerCase t) = Inr (ci_field v t)"
  using assms by (cases v) (simp_all add: opt_lower_includes_def ci_includes_def)

lemma search_matches_searchable:
  assumes "searchable r"
  shows "search_matches (toLowerCase t) r = Inr (record_match t r)"
proof -
  from assms obtain n i where n: "employeeName r = JStr n" and i: "employeeId r = JNum i"
    unfolding searchable_def by (cases "employeeName r"; cases "employeeId r") auto
  from assms have d: "opt_lower_includes (department r) (toLowerCase t)
                        = Inr (ci_field (department r) t)"
    and p: "opt_lower_includes (position r) (toLowerCase t) = Inr (ci_field (position r) t)"
    unfolding searchable_def by (simp_all add: opt_lower_includes_field)
  have id: "str_includes (js_String (employeeId r)) (toLowerCase t) = ci_field (employeeId r) t"
    by (simp add: i ci_includes_num includes_num_lower)
  have nm: "str_includes (toLowerCase n) (toLowerCase t) = ci_field (employeeName r) t"
    by (simp add: n ci_includes_def)
  show ?thesis
    unfolding search_matches_def n js_toLowerCase.simps sum.case nm id d p record_match_def
    by (cases "ci_field (department r) t") simp_all
qed

lemma record_match_empty: "searchable r \<Longrightarrow> record_match [] r"
  unfolding searchable_def record_match_def
  by (cases "employeeName r") (simp_all add: ci_includes_def str_includes_empty toLowerCase_def)

lemma filteredData_searchable:
  assumes "\<forall>r \<in> set d. searchable r"
  shows "filteredData d t f
           = Inr (filter (\<lambda>r. record_match t r \<and> (f = ''all'' \<or> status r = f)) d)"
proof -
  have s: "(if t \<noteq> [] then filter_throwing (search_matches (toLowerCase t)) d else Inr d)
             = Inr (filter (record_match t) d)"
  proof (cases "t = []")
    case True
    with assms have "filter (record_match t) d = d" by (simp add: record_match_empty)
    with True show ?thesis by simp
  next
    case False
    have "filter_throwing (search_matches (toLowerCase t)) d = Inr (filter (record_match t) d)"
      by (rule filter_throwing_total) (simp add: assms search_matches_searchable)
    with False show ?thesis by simp
  qed
  show ?thesis
    unfolding filteredData_def s by (cases "f = ''all''") (simp_all add: conj_commute)
qed

text \<open>
  Claim C3, as stated: in the employee lists the search also looks at the role. It does
  not: Asha is a baker, and the search \<open>baker\<close> finds her in neither list.
\<close>

theorem role_is_not_searched:
  "claimed_employee_match ''baker'' asha
   \<and> asha \<in> set [asha, ravi]
   \<and> asha \<notin> set (filteredEmployees [asha, ravi] ''baker'')
   \<and> asha \<notin> set (filteredEmployees_AttendancePage [asha, ravi] ''baker'')"
  by code_simp

text \<open>
  Claim C3, amended. For ASCII text and ids that are exactly held integers, which print as
  plain digits: both employee lists keep, in order, exactly the employees whose name or id
  contains the search term, letter case ignored; the role is not looked at. (The bulk page
  compares the id with the term as typed, the attendance page with the term in lower case;
  on digits the two agree.) The dashboard, on records whose name is a string, whose id is a
  number and whose department and position are strings or missing, keeps exactly the
  records where the term occurs, letter case ignored, in the name, the id, the department or
  the position, and whose status passes the status filter.
\<close>

theorem search_filters:
  "(ascii t \<and> (\<forall>e \<in> set emps. ascii (name e)) \<longrightarrow>
       filteredEmployees emps t = filter (employee_match t) emps
     \<and> filteredEmployees_AttendancePage emps t = filter (employee_match t) emps
     \<and> (e \<in> set (filteredEmployees emps t) \<longleftrightarrow> e \<in> set emps \<and> employee_match t e)
     \<and> (e \<in> set (filteredEmployees_AttendancePage emps t)
          \<longleftrightarrow> e \<in> set emps \<and> employee_match t e))
   \<and> (ascii t \<and> (\<forall>r \<in> set d. searchable r) \<longrightarrow>
        filteredData d t f
          = Inr (filter (\<lambda>r. record_match t r \<and> (f = ''all'' \<or> status r = f)) d))"
proof (intro conjI impI)
  show "filteredEmployees emps t = filter (employee_match t) emps"
    by (rule filteredEmployees_match)
  show "filteredEmployees_AttendancePage emps t = filter (employee_match t) emps"
    by (rule filteredEmployees_AttendancePage_match)
  show "e \<in> set (filteredEmployees emps t) \<longleftrightarrow> e \<in> set emps \<and> employee_match t e"
    by (simp add: filteredEmployees_match)
  show "e \<in> set (filteredEmployees_AttendancePage emps t)
          \<longleftrightarrow> e \<in> set emps \<and> employee_match t e"
    by (simp add: filteredEmployees_AttendancePage_match)
  show "filteredData d t f
          = Inr (filter (\<lambda>r. record_match t r \<and> (f = ''all'' \<or> status r = f)) d)"
    if "ascii t \<and> (\<forall>r \<in> set d. searchable r)"
    using that by (simp add: filteredData_searchable)
qed

theorem search_filters_witness:
  "ascii ''BAK'' \<and> ascii ''2'' \<and> ascii ''RAV'' \<and> ascii (name asha) \<and> ascii (name ravi)
   \<and> searchable (sample_record 1 ''present'') \<and> searchable (sample_record 12 ''late'')
   \<and> filteredData [sample_record 1 ''present'', sample_record 12 ''late''] ''BAK'' ''all''
       = Inr [sample_record 1 ''present'', sample_record 12 ''late'']
   \<and> filteredData [sample_record 1 ''present'', sample_record 12 ''late''] ''2'' ''all''
       = Inr [sample_record 12 ''late'']
   \<and> filteredEmployees [asha, ravi] ''RAV'' = [ravi]
   \<and> filteredEmployees_AttendancePage [asha, ravi] ''RAV'' = [ravi]"
proof -
  have s: "ascii ''BAK''" "ascii ''2''" "ascii ''RAV''" "ascii (name asha)" "ascii (name ravi)"
    by code_simp+
  have a: "searchable (sample_record 1 ''present'')" "searchable (sample_record 12 ''late'')"
    by code_simp+
  then have b: "\<forall>r \<in> set [sample_record 1 ''present'', sample_record 12 ''late'']. searchable r"
    by simp
  from s have n: "\<forall>e \<in> set [asha, ravi]. ascii (name e)" by simp
  have c: "filter (\<lambda>r. record_match ''BAK'' r \<and> (''all'' = ''all'' \<or> status r = ''all''))
             [sample_record 1 ''present'', sample_record 12 ''late'']
           = [sample_record 1 ''present'', sample_record 12 ''late'']"
    by code_simp
  have d: "filter (\<lambda>r. record_match ''2'' r \<and> (''all'' = ''all'' \<or> status r = ''all''))
             [sample_record 1 ''present'', sample_record 12 ''late'']
           = [sample_record 12 ''late'']"
    by code_simp
  have e: "filter (employee_match ''RAV'') [asha, ravi] = [ravi]"
    by code_simp
  note t1 = search_filters [of "''BAK''" "[asha, ravi]" asha
      "[sample_record 1 ''present'', sample_record 12 ''late'']" "''all''"]
  note t2 = search_filters [of "''2''" "[asha, ravi]" asha
      "[sample_record 1 ''present'', sample_record 12 ''late'']" "''all''"]
  note t3 = search_filters [of "''RAV''" "[asha, ravi]" asha "[]" "''all''"]
  from t1 s(1) b c have f: "filteredData [sample_record 1 ''present'', sample_record 12 ''late'']
                         ''BAK'' ''all''
                       = Inr [sample_record 1 ''present'', sample_record 12 ''late'']"
    by simp
  from t2 s(2) b d have g: "filteredData [sample_record 1 ''present'', sample_record 12 ''late'']
                         ''2'' ''all''
                       = Inr [sample_record 12 ''late'']"
    by simp
  from t3 s(3) n e have h: "filteredEmployees [asha, ravi] ''RAV'' = [ravi]"
    and i: "filteredEmployees_AttendancePage [asha, ravi] ''RAV'' = [ravi]"
    by simp_all
  from s a f g h i show ?thesis by blast
qed

section \<open>Ingest\<close>

lemma process_ok:
  assumes "\<not> nullish item" "raw_status item = JStr s"
  shows "processItem now item =
    Inr \<lparr>employeeId = js_or (field item ''employeeId'') (JNum 0),
                  employeeName = js_or (field item ''employeeName'') (JStr ''Unknown''),
                  status = (if toLowerCase s = ''halfday'' then ''half-day'' else toLowerCase s),
                  date = js_or (field item ''currentDate'')
                           (js_or (field item ''date'') (JStr now)),
                  department = js_or (field item ''department'')
                                 (js_or (field item ''role'') (JStr ''N/A'')),
                  position = js_or (field item ''position'')
                               (js_or (field item ''role'') (JStr ''N/A'')),
                  lastCheckIn = js_or (field item ''lastCheckIn'')
                                  (js_or (field item ''checkInTime'') JNull)\<rparr>"
  using assms by (simp add: processItem_def)

lemma process_throws:
  assumes "nullish item \<or> \<not> is_str (raw_status item)"
  shows "processItem now item = Inl TypeError"
  using assms by (cases "raw_status item") (auto simp: processItem_def)

lemma raw_status_falsy:
  "\<not> truthy (field item ''status'') \<Longrightarrow> \<not> truthy (field item ''attendanceStatus'')
     \<Longrightarrow> raw_status item = JStr ''absent''"
  by (simp add: raw_status_def js_or_def)

lemma raw_status_first: "truthy (field item ''status'') \<Longrightarrow> raw_status item = field item ''status''"
  by (simp add: raw_status_def js_or_def)

lemma raw_status_second:
  "\<not> truthy (field item ''status'') \<Longrightarrow> truthy (field item ''attendanceStatus'')
     \<Longrightarrow> raw_status item = field item ''attendanceStatus''"
  by (simp add: raw_status_def js_or_def)

lemma lower_absent: "toLowerCase ''absent'' = ''absent''"
  by code_simp

lemma truthy_js_or: "truthy b \<Longrightarrow> truthy (js_or a b)"
  by (simp add: js_or_def)

lemma process_fields:
  assumes "ingestible item"
  shows "\<exists>r. processItem now item = Inr r
         \<and> employeeId r = (if truthy (field item ''employeeId'') then field item ''employeeId''
                           else JNum 0)
         \<and> employeeName r = (if truthy (field item ''employeeName'')
                             then field item ''employeeName'' else JStr ''Unknown'')
         \<and> department r = (if truthy (field item ''department'') then field item ''department''
                           else if truthy (field item ''role'') then field item ''role''
                           else JStr ''N/A'')
         \<and> position r = (if truthy (field item ''position'') then field item ''position''
                         else if truthy (field item ''role'') then field item ''role''
                         else JStr ''N/A'')
         \<and> date r = (if truthy (field item ''currentDate'') then field item ''currentDate''
                     else if truthy (field item ''date'') then field item ''date''
                     else JStr now)
         \<and> lastCheckIn r = (if truthy (field item ''lastCheckIn'') then field item ''lastCheckIn''
                            else if truthy (field item ''checkInTime'')
                            then field item ''checkInTime'' else JNull)
         \<and> truthy (employeeName r) \<and> truthy (department r) \<and> truthy (position r)"
proof -
  from assms obtain s where n: "\<not> nullish item" and s: "raw_status item = JStr s"
    unfolding ingestible_def by (cases "raw_status item") auto
  show ?thesis
    unfolding process_ok [OF n s] by (simp add: js_or_def)
qed

lemma processedData_ok:
  assumes "\<forall>item \<in> set items. ingestible item"
  shows "\<exists>rs. processedData now items = Inr rs \<and> length rs = length items
           \<and> (\<forall>r \<in> set rs. truthy (employeeName r) \<and> truthy (department r)
                               \<and> truthy (position r))"
  using assms
proof (induction items)
  case Nil
  show ?case by simp
next
  case (Cons item items)
  then have "ingestible item" by simp
  from process_fields [OF this, of now] obtain r where
    r: "processItem now item = Inr r"
      "truthy (employeeName r)" "truthy (department r)" "truthy (position r)"
    by blast
  from Cons obtain rs where
    rs: "processedData now items = Inr rs" "length rs = length items"
      "\<forall>r \<in> set rs. truthy (employeeName r) \<and> truthy (department r) \<and> truthy (position r)"
    by auto
  from r rs show ?case by simp
qed

lemma processedData_throws:
  assumes "\<exists>item \<in> set items. \<not> ingestible item"
  shows "processedData now items = Inl TypeError"
  using assms
proof (induction items)
  case Nil
  then show ?case by simp
next
  case (Cons item items)
  show ?case
  proof (cases "ingestible item")
    case False
    then have "processItem now item = Inl TypeError"
      by (intro process_throws) (simp add: ingestible_def)
    then show ?thesis by simp
  next
    case True
    with Cons.prems have "\<exists>item \<in> set items. \<not> ingestible item" by simp
    with Cons.IH have "processedData now items = Inl TypeError" by simp
    moreover from process_fields [OF True, of now] obtain r where "processItem now item = Inr r"
      by blast
    ultimately show ?thesis by simp
  qed
qed

text \<open>
  Claim C4, as stated: every unrecognized status becomes \<open>absent\<close>. It does not: the
  status \<open>On-Leave\<close> is kept, in lower case.
\<close>

theorem unrecognized_status_is_kept:
  "processItem ''2024-05-10T08:00:00.000Z''
     (JObj [(''employeeId'', JNum 7), (''status'', JStr ''On-Leave'')])
   = Inr \<lparr>employeeId = JNum 7, employeeName = JStr ''Unknown'', status = ''on-leave'',
          date = JStr ''2024-05-10T08:00:00.000Z'', department = JStr ''N/A'',
          position = JStr ''N/A'', lastCheckIn = JNull\<rparr>"
  by code_simp

text \<open>
  Claim C4, amended. For an entry that is an object: when neither \<open>status\<close> nor
  \<open>attendanceStatus\<close> holds a truthy value the record's status is \<open>absent\<close>; the value
  taken is \<open>status\<close> if truthy and \<open>attendanceStatus\<close> otherwise; when it is a string,
  \<open>halfday\<close> in any letter case becomes \<open>half-day\<close> and every other string is kept, in
  lower case.
\<close>

theorem status_normalization:
  assumes "\<not> nullish item"
  shows "(\<not> truthy (field item ''status'') \<and> \<not> truthy (field item ''attendanceStatus'')
            \<longrightarrow> (\<exists>r. processItem now item = Inr r \<and> status r = ''absent''))
       \<and> (\<forall>s. raw_status item = JStr s \<longrightarrow>
            (\<exists>r. processItem now item = Inr r
                 \<and> status r = (if toLowerCase s = ''halfday'' then ''half-day''
                               else toLowerCase s)))
       \<and> (truthy (field item ''status'') \<longrightarrow> raw_status item = field item ''status'')
       \<and> (\<not> truthy (field item ''status'') \<and> truthy (field item ''attendanceStatus'')
            \<longrightarrow> raw_status item = field item ''attendanceStatus'')"
proof (intro conjI impI allI)
  assume "\<not> truthy (field item ''status'') \<and> \<not> truthy (field item ''attendanceStatus'')"
  then have "raw_status item = JStr ''absent''" by (simp add: raw_status_falsy)
  from process_ok [OF assms this, of now]
  show "\<exists>r. processItem now item = Inr r \<and> status r = ''absent''"
    by (simp add: lower_absent)
next
  fix s assume "raw_status item = JStr s"
  from process_ok [OF assms this, of now]
  show "\<exists>r. processItem now item = Inr r
           \<and> status r = (if toLowerCase s = ''halfday'' then ''half-day'' else toLowerCase s)"
    by simp
next
  assume "truthy (field item ''status'')"
  then show "raw_status item = field item ''status''" by (rule raw_status_first)
next
  assume "\<not> truthy (field item ''status'') \<and> truthy (field item ''attendanceStatus'')"
  then show "raw_status item = field item ''attendanceStatus''" by (simp add: raw_status_second)
qed

theorem status_normalization_witness:
  "\<not> nullish (JObj [])
   \<and> (\<exists>r. processItem ''2024-05-10T08:00:00.000Z'' (JObj []) = Inr r \<and> status r = ''absent'')
   \<and> \<not> nullish (JObj [(''attendanceStatus'', JStr ''HALFDAY'')])
   \<and> raw_status (JObj [(''attendanceStatus'', JStr ''HALFDAY'')]) = JStr ''HALFDAY''
   \<and> (\<exists>r. processItem ''2024-05-10T08:00:00.000Z''
              (JObj [(''attendanceStatus'', JStr ''HALFDAY'')]) = Inr r
            \<and> status r = ''half-day'')"
proof -
  have a: "\<not> nullish (JObj [])" "\<not> nullish (JObj [(''attendanceStatus'', JStr ''HALFDAY'')])"
    by simp_all
  have b: "\<not> truthy (field (JObj []) ''status'')
           \<and> \<not> truthy (field (JObj []) ''attendanceStatus'')"
    by (simp add: field_def)
  have c: "raw_status (JObj [(''attendanceStatus'', JStr ''HALFDAY'')]) = JStr ''HALFDAY''"
    by (simp add: raw_status_def field_def js_or_def)
  have d: "toLowerCase ''HALFDAY'' = ''halfday''" by code_simp
  from status_normalization [OF a(1), of "''2024-05-10T08:00:00.000Z''"] b
  have e: "\<exists>r. processItem ''2024-05-10T08:00:00.000Z'' (JObj []) = Inr r
               \<and> status r = ''absent''"
    by blast
  from status_normalization [OF a(2), of "''2024-05-10T08:00:00.000Z''"] c
  have "\<exists>r. processItem ''2024-05-10T08:00:00.000Z''
              (JObj [(''attendanceStatus'', JStr ''HALFDAY'')]) = Inr r
            \<and> status r = (if toLowerCase ''HALFDAY'' = ''halfday'' then ''half-day''
                          else toLowerCase ''HALFDAY'')"
    by blast
  then have f: "\<exists>r. processItem ''2024-05-10T08:00:00.000Z''
              (JObj [(''attendanceStatus'', JStr ''HALFDAY'')]) = Inr r
            \<and> status r = ''half-day''"
    unfolding d by simp
  from a c e f show ?thesis by blast
qed

text \<open>
  Claim C10, as stated: the ingest yields a record for every raw entry. It does not: an
  entry whose status is the number 1 makes \<open>toLowerCase\<close> throw, and no record at all
  comes out of the response.
\<close>

theorem numeric_status_throws:
  "processedData ''2024-05-10T08:00:00.000Z''
     [JObj [(''employeeId'', JNum 7), (''employeeName'', JStr ''Asha''), (''status'', JNum 1)]]
   = Inl TypeError"
  by code_simp

text \<open>
  Claim C10, amended. The ingest yields a record for exactly the entries that are neither
  \<open>null\<close> nor \<open>undefined\<close> and whose status value is a string; for every other entry it
  throws. In such a record \<open>employeeId\<close> defaults to 0, \<open>employeeName\<close> to \<open>Unknown\<close>,
  \<open>department\<close> and \<open>position\<close> to the role and then to \<open>N/A\<close>, \<open>date\<close> to the
  current time and \<open>lastCheckIn\<close> to the check-in time and then to \<open>null\<close>; name,
  department and position are never missing. A response of such entries yields one record
  per entry.
\<close>

theorem ingest_defaults:
  "(ingestible item \<longrightarrow>
      (\<exists>r. processItem now item = Inr r
         \<and> employeeId r = (if truthy (field item ''employeeId'') then field item ''employeeId''
                           else JNum 0)
         \<and> employeeName r = (if truthy (field item ''employeeName'')
                             then field item ''employeeName'' else JStr ''Unknown'')
         \<and> department r = (if truthy (field item ''department'') then field item ''department''
                           else if truthy (field item ''role'') then field item ''role''
                           else JStr ''N/A'')
         \<and> position r = (if truthy (field item ''position'') then field item ''position''
                         else if truthy (field item ''role'') then field item ''role''
                         else JStr ''N/A'')
         \<and> date r = (if truthy (field item ''currentDate'') then field item ''currentDate''
                     else if truthy (field item ''date'') then field item ''date''
                     else JStr now)
         \<and> lastCheckIn r = (if truthy (field item ''lastCheckIn'') then field item ''lastCheckIn''
                            else if truthy (field item ''checkInTime'')
                            then field item ''checkInTime'' else JNull)
         \<and> truthy (employeeName r) \<and> truthy (department r) \<and> truthy (position r)))
   \<and> (\<not> ingestible item \<longrightarrow> processItem now item = Inl TypeError)
   \<and> ((\<forall>item \<in> set items. ingestible item) \<longrightarrow>
        (\<exists>rs. processedData now items = Inr rs \<and> length rs = length items
           \<and> (\<forall>r \<in> set rs. truthy (employeeName r) \<and> truthy (department r)
                               \<and> truthy (position r))))
   \<and> ((\<exists>item \<in> set items. \<not> ingestible item) \<longrightarrow> processedData now items = Inl TypeError)"
proof (intro conjI impI)
  show "processItem now item = Inl TypeError" if "\<not> ingestible item"
    using that by (intro process_throws) (simp add: ingestible_def)
  show "processedData now items = Inl TypeError" if "\<exists>item \<in> set items. \<not> ingestible item"
    using that by (rule processedData_throws)
qed (simp_all only: process_fields processedData_ok)

theorem ingest_defaults_witness:
  "ingestible (JObj [(''role'', JStr ''Baker'')])
   \<and> processItem ''2024-05-10T08:00:00.000Z'' (JObj [(''role'', JStr ''Baker'')])
       = Inr \<lparr>employeeId = JNum 0, employeeName = JStr ''Unknown'', status = ''absent'',
              date = JStr ''2024-05-10T08:00:00.000Z'', department = JStr ''Baker'',
              position = JStr ''Baker'', lastCheckIn = JNull\<rparr>
   \<and> (\<exists>r. processItem ''2024-05-10T08:00:00.000Z'' (JObj [(''role'', JStr ''Baker'')]) = Inr r
          \<and> truthy (employeeName r) \<and> truthy (department r) \<and> truthy (position r))
   \<and> \<not> ingestible (JObj [(''status'', JNum 1)])
   \<and> processItem ''2024-05-10T08:00:00.000Z'' (JObj [(''status'', JNum 1)]) = Inl TypeError"
proof -
  have a: "ingestible (JObj [(''role'', JStr ''Baker'')])"
    by (simp add: ingestible_def raw_status_def field_def js_or_def)
  have b: "\<not> ingestible (JObj [(''status'', JNum 1)])"
    by (simp add: ingestible_def raw_status_def field_def js_or_def)
  have c: "processItem ''2024-05-10T08:00:00.000Z'' (JObj [(''role'', JStr ''Baker'')])
       = Inr \<lparr>employeeId = JNum 0, employeeName = JStr ''Unknown'', status = ''absent'',
              date = JStr ''2024-05-10T08:00:00.000Z'', department = JStr ''Baker'',
              position = JStr ''Baker'', lastCheckIn = JNull\<rparr>"
    by code_simp
  from ingest_defaults [of "JObj [(''role'', JStr ''Baker'')]" "''2024-05-10T08:00:00.000Z''" "[]"] a
  have d: "\<exists>r. processItem ''2024-05-10T08:00:00.000Z'' (JObj [(''role'', JStr ''Baker'')]) = Inr r
          \<and> truthy (employeeName r) \<and> truthy (department r) \<and> truthy (position r)"
    by blast
  from ingest_defaults [of "JObj [(''status'', JNum 1)]" "''2024-05-10T08:00:00.000Z''" "[]"] b
  have e: "processItem ''2024-05-10T08:00:00.000Z'' (JObj [(''status'', JNum 1)]) = Inl TypeError"
    by blast
  from a b c d e show ?thesis by blast
qed

end
